theory Spec2Isabelle
  imports Main "HOL-Library.Word"
begin

unbundle bit_operations_syntax

section \<open>Python strings\<close>

text \<open>
  The translator is a Python script working on \<open>str\<close> values. A \<^typ>\<open>char\<close> stands for
  a code point below 256. The string methods the script calls are written out here:
  \<open>isspace\<close>, \<open>isdigit\<close>, \<open>strip\<close>, \<open>split\<close>, \<open>find("//")\<close>, \<open>str\<close> of an integer
  and \<open>int\<close> of a string (which raises ValueError, here \<open>None\<close>).
\<close>

definition TAB :: char where
  "TAB = CHR 0x09"

definition py_isspace :: "char \<Rightarrow> bool" where
  "py_isspace c = (let n = (of_char c :: nat) in
     (9 \<le> n \<and> n \<le> 13) \<or> (28 \<le> n \<and> n \<le> 32) \<or> n = 133 \<or> n = 160)"

definition is_ascii_digit :: "char \<Rightarrow> bool" where
  "is_ascii_digit c = (let n = (of_char c :: nat) in 48 \<le> n \<and> n \<le> 57)"

text \<open>\<open>str.isdigit\<close> also accepts the superscript digits U+00B2, U+00B3 and U+00B9.\<close>

definition py_isdigit_char :: "char \<Rightarrow> bool" where
  "py_isdigit_char c = (let n = (of_char c :: nat) in
     is_ascii_digit c \<or> n = 178 \<or> n = 179 \<or> n = 185)"

definition py_isdigit :: "string \<Rightarrow> bool" where
  "py_isdigit s = (s \<noteq> [] \<and> list_all py_isdigit_char s)"

definition py_strip :: "string \<Rightarrow> string" where
  "py_strip s = rev (dropWhile py_isspace (rev (dropWhile py_isspace s)))"

fun split_acc :: "string \<Rightarrow> string \<Rightarrow> string list" where
  "split_acc w [] = (if w = [] then [] else [w])"
| "split_acc w (c # cs) =
     (if py_isspace c then (if w = [] then split_acc [] cs else w # split_acc [] cs)
      else split_acc (w @ [c]) cs)"

definition py_split :: "string \<Rightarrow> string list" where
  "py_split s = split_acc [] s"

text \<open>\<open>line.find("//")\<close>: the index of the first occurrence, \<open>None\<close> for \<open>-1\<close>.\<close>

fun find_slashes :: "string \<Rightarrow> nat option" where
  "find_slashes [] = None"
| "find_slashes [c] = None"
| "find_slashes (c # d # r) =
     (if c = CHR ''/'' \<and> d = CHR ''/'' then Some 0
      else map_option Suc (find_slashes (d # r)))"

definition digit_char :: "nat \<Rightarrow> char" where
  "digit_char d = ''0123456789'' ! d"

function str_nat :: "nat \<Rightarrow> string" where
  "str_nat n = (if n < 10 then [digit_char n] else str_nat (n div 10) @ [digit_char (n mod 10)])"
  by pat_completeness auto
termination
  by (relation "measure id") auto

declare str_nat.simps [simp del]

definition py_str :: "int \<Rightarrow> string" where
  "py_str i = (if i < 0 then CHR ''-'' # str_nat (nat (- i)) else str_nat (nat i))"

definition digit_val :: "char \<Rightarrow> nat" where
  "digit_val c = of_char c - 48"

definition nat_of_digits :: "string \<Rightarrow> nat" where
  "nat_of_digits s = foldl (\<lambda>a c. 10 * a + digit_val c) 0 s"

text \<open>
  \<open>int(s)\<close>: surrounding whitespace is ignored, one sign is allowed, single underscores may
  separate digits; anything else raises ValueError.
\<close>

fun digit_groups :: "string \<Rightarrow> bool" where
  "digit_groups [] = False"
| "digit_groups [c] = is_ascii_digit c"
| "digit_groups (c # d # r) =
     (is_ascii_digit c \<and> (if d = CHR ''_'' then digit_groups r else digit_groups (d # r)))"

definition py_int :: "string \<Rightarrow> int option" where
  "py_int s = (let t = py_strip s;
                   neg = (t \<noteq> [] \<and> hd t = CHR ''-'');
                   body = (if t \<noteq> [] \<and> (hd t = CHR ''-'' \<or> hd t = CHR ''+'') then tl t else t)
               in if digit_groups body
                  then (let v = int (nat_of_digits (filter (\<lambda>c. c \<noteq> CHR ''_'') body))
                        in Some (if neg then - v else v))
                  else None)"

section \<open>Enumerations and lookup tables\<close>

datatype CommandType =
    CT_Arithmetic | CT_Comparison | CT_Push | CT_Pop | CT_Label | CT_Goto | CT_IfGoto
  | CT_Function | CT_Return | CT_Call | CT_Invalid

datatype ArithmeticType = Add | Sub | Neg | And | Or | Not'

datatype ComparisonType = EQ | GT | LT

datatype MemorySegment = LCL | ARG | THIS | THAT | Static | Constant | Pointer | Temp | Invalid

fun aname :: "ArithmeticType \<Rightarrow> string" where
  "aname Add = ''Add''" | "aname Sub = ''Sub''" | "aname Neg = ''Neg''"
| "aname And = ''And''" | "aname Or = ''Or''" | "aname Not' = ''Not''"

fun cname :: "ComparisonType \<Rightarrow> string" where
  "cname EQ = ''EQ''" | "cname GT = ''GT''" | "cname LT = ''LT''"

fun sname :: "MemorySegment \<Rightarrow> string" where
  "sname LCL = ''LCL''" | "sname ARG = ''ARG''" | "sname THIS = ''THIS''"
| "sname THAT = ''THAT''" | "sname Static = ''Static''" | "sname Constant = ''Constant''"
| "sname Pointer = ''Pointer''" | "sname Temp = ''Temp''" | "sname Invalid = ''Invalid''"

fun svalue :: "MemorySegment \<Rightarrow> nat" where
  "svalue LCL = 1" | "svalue ARG = 2" | "svalue THIS = 3" | "svalue THAT = 4"
| "svalue Static = 5" | "svalue Constant = 6" | "svalue Pointer = 7" | "svalue Temp = 8"
| "svalue Invalid = 9"

definition InitializeCommandTypeDictionary :: "(string \<times> CommandType) list" where
  "InitializeCommandTypeDictionary =
    [(''add'', CT_Arithmetic), (''sub'', CT_Arithmetic), (''neg'', CT_Arithmetic),
     (''eq'', CT_Comparison), (''gt'', CT_Comparison), (''lt'', CT_Comparison),
     (''and'', CT_Arithmetic), (''or'', CT_Arithmetic), (''not'', CT_Arithmetic),
     (''push'', CT_Push), (''pop'', CT_Pop), (''label'', CT_Label), (''goto'', CT_Goto),
     (''if-goto'', CT_IfGoto), (''function'', CT_Function), (''call'', CT_Call),
     (''return'', CT_Return)]"

definition InitializeArithmeticTypeDictionary :: "(string \<times> ArithmeticType) list" where
  "InitializeArithmeticTypeDictionary =
    [(''add'', Add), (''sub'', Sub), (''neg'', Neg), (''and'', And), (''or'', Or),
     (''not'', Not')]"

definition InitializeComparisonTypeDictionary :: "(string \<times> ComparisonType) list" where
  "InitializeComparisonTypeDictionary = [(''eq'', EQ), (''gt'', GT), (''lt'', LT)]"

definition InitializeMemorySegmentDictionary :: "(string \<times> MemorySegment) list" where
  "InitializeMemorySegmentDictionary =
    [(''local'', LCL), (''argument'', ARG), (''this'', THIS), (''that'', THAT),
     (''static'', Static), (''constant'', Constant), (''pointer'', Pointer),
     (''temp'', Temp)]"

section \<open>The code generators\<close>

text \<open>Every generated comment starts with two tab characters and \<open>//\<close>.\<close>

definition cmt :: "string \<Rightarrow> string" where
  "cmt s = TAB # TAB # ''//'' @ s"

definition PushAddress :: "string \<Rightarrow> string list" where
  "PushAddress registerName =
     [''@'' @ registerName, ''D=M'', ''@SP'', ''M=M+1'', ''A=M-1'', ''M=D'']"

definition GenerateFunctionCallCode :: "string \<Rightarrow> int \<Rightarrow> string \<Rightarrow> string list" where
  "GenerateFunctionCallCode functionName argumentCount returnLabel =
     (let comment = cmt (''Call function '' @ functionName @ '' with  ''
                          @ py_str argumentCount @ '' arguments'')
      in [comment,
          ''@'' @ returnLabel, ''D=A'',
          ''@SP'', ''M=M+1'',
          ''A=M-1'',
          ''M=D'']
         @ PushAddress ''LCL''
         @ PushAddress ''ARG''
         @ PushAddress ''THIS''
         @ PushAddress ''THAT''
         @ [''@SP'', ''D=M'', ''@5'', ''D=D-A'', ''@'' @ py_str argumentCount, ''D=D-A'',
            ''@ARG'', ''M=D'',
            ''@SP'', ''D=M'', ''@LCL'', ''M=D'',
            ''@'' @ functionName, ''0;JMP'',
            ''('' @ returnLabel @ '')'' @ comment])"

definition GenerateBootStrapCode :: "string list" where
  "GenerateBootStrapCode =
     [''@256'', ''D=A'', ''@SP'', ''M=D'']
     @ butlast (GenerateFunctionCallCode ''Sys.init'' 0 ''Dummy'')"

definition GenerateArithmeticCode :: "ArithmeticType \<Rightarrow> string list" where
  "GenerateArithmeticCode aType =
     [cmt (''Stack '' @ aname aType), ''@SP'']
     @ (if aType = Neg \<or> aType = Not'
        then [''A=M-1''] @ (if aType = Neg then [''M=-M''] else [''M=!M''])
        else [''M=M-1'', ''A=M'', ''D=M'', ''A=A-1'']
             @ (if aType = Add then [''M=D+M'']
                else if aType = Sub then [''M=M-D'']
                else if aType = And then [''M=D&M'']
                else [''M=D|M'']))"

definition GenerateComparisonCode :: "ComparisonType \<Rightarrow> int \<Rightarrow> string list" where
  "GenerateComparisonCode cType comparisonCount =
     (let compareLabel = ''COMPARE:'' @ py_str comparisonCount
      in [cmt (''Stack Compare '' @ cname cType),
          ''@SP'', ''M=M-1'', ''A=M'', ''D=M'', ''A=A-1'', ''D=M-D'', ''M=-1'',
          ''@'' @ compareLabel]
         @ (if cType = EQ then [''D;JEQ'']
            else if cType = GT then [''D;JGT'']
            else if cType = LT then [''D;JLT'']
            else [])
         @ [''@SP'', ''A=M-1'', ''M=0'', ''('' @ compareLabel @ '')''])"

text \<open>
  \<open>GeneratePushCode\<close> and \<open>GeneratePopCode\<close> read \<open>line[1]\<close>, \<open>line[2]\<close> and, for the
  static segment, \<open>line[3]\<close>. \<open>int(index)\<close> may raise ValueError: the result is \<open>None\<close>.
\<close>

definition GeneratePushCode :: "MemorySegment \<Rightarrow> string \<Rightarrow> string \<Rightarrow> string list option" where
  "GeneratePushCode sType index fileName =
     (let comment = cmt (''Push '' @ sname sType @ '' '' @ index);
          tail = [''@SP'', ''M=M+1'', ''A=M-1'', ''M=D'']
      in if sType = Constant then
           Some ([comment, ''@'' @ index, ''D=A''] @ tail)
         else if svalue sType < 5 then
           Some ([comment, ''@'' @ index, ''D=A'', ''@'' @ sname sType, ''A=D+M'', ''D=M'']
                 @ tail)
         else if sType = Pointer then
           (case py_int index of None \<Rightarrow> None
            | Some i \<Rightarrow> Some ([comment, ''@R'' @ py_str (i + 3), ''D=M''] @ tail))
         else if sType = Temp then
           (case py_int index of None \<Rightarrow> None
            | Some i \<Rightarrow> Some ([comment, ''@R'' @ py_str (i + 5), ''D=M''] @ tail))
         else if sType = Static then
           Some ([comment, ''@'' @ fileName @ ''.'' @ index, ''D=M''] @ tail)
         else Some ([comment] @ tail))"

definition GeneratePopCode :: "MemorySegment \<Rightarrow> string \<Rightarrow> string \<Rightarrow> string list option" where
  "GeneratePopCode sType index fileName =
     (let comment = cmt (''Pop '' @ sname sType @ '' '' @ index);
          tail = [''D=A'', ''@R13'', ''M=D'', ''@SP'', ''M=M-1'', ''A=M'', ''D=M'',
                  ''@R13'', ''A=M'', ''M=D'']
      in if svalue sType < 5 then
           Some ([comment, ''@'' @ index, ''D=A'', ''@'' @ sname sType, ''A=D+M''] @ tail)
         else if sType = Pointer then
           (case py_int index of None \<Rightarrow> None
            | Some i \<Rightarrow> Some ([comment, ''@R'' @ py_str (i + 3)] @ tail))
         else if sType = Temp then
           (case py_int index of None \<Rightarrow> None
            | Some i \<Rightarrow> Some ([comment, ''@R'' @ py_str (i + 5)] @ tail))
         else if sType = Static then
           Some ([comment, ''@'' @ fileName @ ''.'' @ index] @ tail)
         else Some ([comment] @ tail))"

definition GenerateFunctionDefinitionCode :: "string \<Rightarrow> int \<Rightarrow> string list" where
  "GenerateFunctionDefinitionCode functionName localVarCount =
     (let comment = cmt (''Function definition, '' @ py_str localVarCount
                          @ '' local variables'')
      in ['''', ''('' @ functionName @ '')'' @ comment, ''@SP'', ''A=M'']
         @ concat (replicate (nat localVarCount) [''M=0'', ''A=A+1''])
         @ [''D=A'', ''@SP'', ''M=D''])"

definition GenerateReturnCode :: "string list" where
  "GenerateReturnCode =
     [cmt ''Return control to calling function'',
      ''@5'', ''D=A'', ''@LCL'', ''A=M-D'', ''D=M'', ''@R13'', ''M=D'',
      ''@SP'', ''A=M-1'', ''D=M'', ''@ARG'', ''A=M'', ''M=D'',
      ''@ARG'', ''D=M+1'', ''@SP'', ''M=D'',
      ''@LCL'', ''A=M-1'', ''D=M'', ''@THAT'', ''M=D'',
      ''@2'', ''D=A'', ''@LCL'', ''A=M-D'', ''D=M'', ''@THIS'', ''M=D'',
      ''@3'', ''D=A'', ''@LCL'', ''A=M-D'', ''D=M'', ''@ARG'', ''M=D'',
      ''@4'', ''D=A'', ''@LCL'', ''A=M-D'', ''D=M'', ''@LCL'', ''M=D'',
      ''@R13'', ''A=M'', ''0;JMP'']"

section \<open>The main program\<close>

text \<open>
  The script first parses every line of every \<open>.vm\<close> file into a tuple whose first
  component is the command type, and then translates the tuples in order. A processed line
  is one of the tuple shapes the parser builds.
\<close>

datatype processedLine =
    ArithLine ArithmeticType
  | CompLine ComparisonType
  | SegLine CommandType MemorySegment string string
  | NameLine CommandType string
  | FunLine CommandType string int
  | ReturnLine
  | InvalidLine nat

fun ctype_of :: "processedLine \<Rightarrow> CommandType" where
  "ctype_of (ArithLine a) = CT_Arithmetic"
| "ctype_of (CompLine c) = CT_Comparison"
| "ctype_of (SegLine t g i f) = t"
| "ctype_of (NameLine t n) = t"
| "ctype_of (FunLine t n k) = t"
| "ctype_of ReturnLine = CT_Return"
| "ctype_of (InvalidLine n) = CT_Invalid"

text \<open>
  The branch chain of the parser over the words of one line. The result is \<open>None\<close> where
  \<open>int(words[2])\<close> raises; the flag tells whether \<open>sys_init\<close> is set.
\<close>

definition parse_words :: "string list \<Rightarrow> string \<Rightarrow> nat \<Rightarrow> (bool \<times> processedLine) option" where
  "parse_words words fileName lineNumber =
     (let cType = (case map_of InitializeCommandTypeDictionary (hd words) of
                     None \<Rightarrow> CT_Invalid | Some c \<Rightarrow> c)
      in if cType = CT_Arithmetic \<and> length words = 1 then
           (case map_of InitializeArithmeticTypeDictionary (hd words) of
              None \<Rightarrow> None | Some a \<Rightarrow> Some (False, ArithLine a))
         else if cType = CT_Comparison \<and> length words = 1 then
           (case map_of InitializeComparisonTypeDictionary (hd words) of
              None \<Rightarrow> None | Some a \<Rightarrow> Some (False, CompLine a))
         else if length words = 3 \<and> (cType = CT_Push \<or> cType = CT_Pop) then
           (let segment = (case map_of InitializeMemorySegmentDictionary (words ! 1) of
                             None \<Rightarrow> Invalid | Some g \<Rightarrow> g)
            in if segment = Invalid \<or> \<not> py_isdigit (words ! 2)
               then Some (False, InvalidLine lineNumber)
               else Some (False, SegLine cType segment (words ! 2) fileName))
         else if length words = 2 \<and> (cType = CT_Label \<or> cType = CT_Goto \<or> cType = CT_IfGoto) then
           Some (False, NameLine cType (words ! 1))
         else if cType = CT_Function \<and> length words = 3 then
           (case py_int (words ! 2) of
              None \<Rightarrow> None
            | Some n \<Rightarrow> Some (words ! 1 = ''Sys.init'', FunLine cType (words ! 1) n))
         else if cType = CT_Call \<and> length words = 3 then
           (case py_int (words ! 2) of
              None \<Rightarrow> None
            | Some n \<Rightarrow> Some (False, FunLine cType (words ! 1) n))
         else if cType = CT_Return \<and> length words = 1 then
           Some (False, ReturnLine)
         else Some (False, InvalidLine lineNumber))"

record pstate =
  processedLines :: "processedLine list"
  errors :: "processedLine list"
  lineNumber :: nat
  sys_init :: bool
  fileLines :: "string list"

definition parse_line :: "string \<Rightarrow> pstate \<Rightarrow> string \<Rightarrow> pstate option" where
  "parse_line fileName st raw =
     (let st1 = st\<lparr>lineNumber := lineNumber st + 1\<rparr>;
          stripped = py_strip raw;
          uncommented = (case find_slashes stripped of
                           None \<Rightarrow> stripped | Some k \<Rightarrow> take k stripped);
          line = py_strip uncommented
      in if line = [] then Some st1
         else (case parse_words (py_split line) fileName (lineNumber st1) of
                 None \<Rightarrow> None
               | Some (found, pl) \<Rightarrow>
                   (let st2 = (if found then st1\<lparr>sys_init := True\<rparr> else st1)
                    in Some (if ctype_of pl = CT_Invalid
                             then st2\<lparr>errors := errors st2 @ [pl]\<rparr>
                             else st2\<lparr>processedLines := processedLines st2 @ [pl]\<rparr>))))"

fun parse_lines :: "string \<Rightarrow> string list \<Rightarrow> pstate \<Rightarrow> pstate option" where
  "parse_lines fileName [] st = Some st"
| "parse_lines fileName (l # ls) st =
     (case parse_line fileName st l of None \<Rightarrow> None | Some st' \<Rightarrow> parse_lines fileName ls st')"

text \<open>
  A file is given by the name the script cuts out of its path and by its lines. The
  script keeps the stripped lines of the file it reads in \<open>lines\<close>, here \<open>fileLines\<close>.
\<close>

fun parse_files :: "(string \<times> string list) list \<Rightarrow> pstate \<Rightarrow> pstate option" where
  "parse_files [] st = Some st"
| "parse_files ((fileName, ls) # fs) st =
     (case parse_lines fileName ls (st\<lparr>fileLines := map py_strip ls\<rparr>) of
        None \<Rightarrow> None
      | Some st' \<Rightarrow> parse_files fs st')"

record ctx =
  functionName :: string
  comparisonCount :: int
  callCount :: int

text \<open>
  One round of the translation loop: the new context and the \<open>translation\<close> list that is
  appended to \<open>hackCommands\<close>. \<open>None\<close> is an exception raised by a generator.
\<close>

fun translate_line :: "ctx \<Rightarrow> processedLine \<Rightarrow> (ctx \<times> string list) option" where
  "translate_line c (SegLine CT_Push sType index fileName) =
     map_option (Pair c) (GeneratePushCode sType index fileName)"
| "translate_line c (SegLine CT_Pop sType index fileName) =
     map_option (Pair c) (GeneratePopCode sType index fileName)"
| "translate_line c (ArithLine aType) = Some (c, GenerateArithmeticCode aType)"
| "translate_line c (CompLine cType) =
     (let c' = c\<lparr>comparisonCount := comparisonCount c + 1\<rparr>
      in Some (c', GenerateComparisonCode cType (comparisonCount c')))"
| "translate_line c (NameLine CT_Label name) =
     Some (c, ['''', ''('' @ functionName c @ ''$'' @ name @ '')'', ''''])"
| "translate_line c (NameLine CT_Goto name) =
     (let comment = cmt (''Goto label '' @ functionName c @ ''$'' @ name)
      in Some (c, [''@'' @ functionName c @ ''$'' @ name @ comment, ''0;JMP'']))"
| "translate_line c (NameLine CT_IfGoto name) =
     Some (c, [cmt (''If-Goto label '' @ functionName c @ ''$'' @ name),
               ''@SP'', ''M=M-1'', ''A=M'', ''D=M'',
               ''@'' @ functionName c @ ''$'' @ name, ''D;JNE''])"
| "translate_line c (FunLine CT_Call name n) =
     (let c' = c\<lparr>functionName := name, callCount := callCount c + 1\<rparr>;
          returnName = functionName c' @ ''.RETURN'' @ '':'' @ py_str (callCount c')
      in Some (c', GenerateFunctionCallCode (functionName c') n returnName))"
| "translate_line c (FunLine CT_Function name n) =
     (let c' = c\<lparr>functionName := name\<rparr>
      in Some (c', GenerateFunctionDefinitionCode (functionName c') n))"
| "translate_line c ReturnLine = Some (c, GenerateReturnCode)"
| "translate_line c (InvalidLine k) = Some (c, [])"
| "translate_line c other = None"

fun translate_lines :: "ctx \<Rightarrow> processedLine list \<Rightarrow> (ctx \<times> string list list) option" where
  "translate_lines c [] = Some (c, [])"
| "translate_lines c (l # ls) =
     (case translate_line c l of
        None \<Rightarrow> None
      | Some (c', t) \<Rightarrow>
          (case translate_lines c' ls of
             None \<Rightarrow> None
           | Some (c'', ts) \<Rightarrow> Some (c'', t # ts)))"

text \<open>
  What a run leaves behind. No output file: an exception before the file is opened
  (\<open>Crashed\<close>), the missing \<open>Sys.init\<close>, or invalid commands. Otherwise the file is
  opened and the lines are written one after the other, each followed by a newline:
  \<open>Written\<close> holds the lines of a file that received every line, \<open>Partial\<close> the lines of
  a file that was left behind when a line could not be encoded.
\<close>

datatype outcome =
    Crashed | NoSysInit | InvalidCommands "processedLine list"
  | Written "string list" | Partial "string list"

definition initial_pstate :: pstate where
  "initial_pstate =
     \<lparr>processedLines = [], errors = [], lineNumber = 0, sys_init = False, fileLines = []\<rparr>"

definition initial_ctx :: ctx where
  "initial_ctx = \<lparr>functionName = ''NONE'', comparisonCount = 0, callCount = 0\<rparr>"

text \<open>
  The report of the invalid commands prints \<open>lines[error[1] - 1]\<close> for every error, where
  \<open>lines\<close> holds the lines of the file parsed last, while the line numbers count through
  all files: the index may be out of range, which raises IndexError.
\<close>

fun error_line_in_range :: "string list \<Rightarrow> processedLine \<Rightarrow> bool" where
  "error_line_in_range ls (InvalidLine n) =
     (- int (length ls) \<le> int n - 1 \<and> int n - 1 < int (length ls))"
| "error_line_in_range ls other = True"

text \<open>
  The write loop: \<open>writer.write(hackCommand + "\n")\<close> for every line in order, with no
  handler. \<open>enc\<close> tells which characters the encoding of the output file can write;
  a line with another character raises UnicodeEncodeError and ends the run, after the
  lines before it. The result is the list of the lines written and whether the loop
  came to its end.
\<close>

fun write_lines :: "(char \<Rightarrow> bool) \<Rightarrow> string list \<Rightarrow> string list \<times> bool" where
  "write_lines enc [] = ([], True)"
| "write_lines enc (l # ls) =
     (if list_all enc (l @ [CHR 0x0A])
      then (case write_lines enc ls of (w, finished) \<Rightarrow> (l # w, finished))
      else ([], False))"

definition main :: "(char \<Rightarrow> bool) \<Rightarrow> (string \<times> string list) list \<Rightarrow> outcome" where
  "main enc files =
     (case parse_files files initial_pstate of
        None \<Rightarrow> Crashed
      | Some st \<Rightarrow>
          if \<not> sys_init st then NoSysInit
          else if length (errors st) > 0 then
            (if list_all (error_line_in_range (fileLines st)) (errors st)
             then InvalidCommands (errors st) else Crashed)
          else (case translate_lines initial_ctx (processedLines st) of
                  None \<Rightarrow> Crashed
                | Some (c, ts) \<Rightarrow>
                    (case write_lines enc (GenerateBootStrapCode @ concat ts) of
                       (w, True) \<Rightarrow> Written w
                     | (w, False) \<Rightarrow> Partial w)))"

section \<open>The target machine\<close>

text \<open>
  The generated text is assembly for the Hack computer (chapter 6 of the book the script
  cites): two 16-bit registers \<open>A\<close> and \<open>D\<close>, a data memory of 16-bit cells addressed by
  \<open>A\<close>, and a program counter into the instruction memory. \<open>SP\<close>, \<open>LCL\<close>, \<open>ARG\<close>, \<open>THIS\<close>,
  \<open>THAT\<close> and \<open>R0\<close> to \<open>R15\<close> name the memory cells 0 to 15. An A-instruction \<open>@x\<close> loads a
  constant below 32768 or the address of a symbol; a C-instruction \<open>dest=comp;jump\<close>
  computes \<open>comp\<close>, stores it in the destinations and jumps to the address in \<open>A\<close> when the
  condition holds for the computed value.
\<close>

datatype comp =
    Zero | One | MinusOne | ValD | ValA | ValM | NotD | NotA | NotM | NegD | NegA | NegM
  | IncD | IncA | IncM | DecD | DecA | DecM | DplusA | DplusM | DminusA | DminusM
  | AminusD | MminusD | DandA | DandM | DorA | DorM

datatype jump = JNone | JGT | JEQ | JGE | JLT | JNE | JLE | JMP

datatype instr = AInstr "16 word" | CInstr bool bool bool comp jump

datatype asm_line = Blank | LabelDef string | Ins instr

record hack =
  regA :: "16 word"
  regD :: "16 word"
  ram :: "16 word \<Rightarrow> 16 word"
  pc :: nat

fun eval_comp :: "comp \<Rightarrow> 16 word \<Rightarrow> 16 word \<Rightarrow> 16 word \<Rightarrow> 16 word" where
  "eval_comp Zero d a m = 0"
| "eval_comp One d a m = 1"
| "eval_comp MinusOne d a m = - 1"
| "eval_comp ValD d a m = d"
| "eval_comp ValA d a m = a"
| "eval_comp ValM d a m = m"
| "eval_comp NotD d a m = NOT d"
| "eval_comp NotA d a m = NOT a"
| "eval_comp NotM d a m = NOT m"
| "eval_comp NegD d a m = - d"
| "eval_comp NegA d a m = - a"
| "eval_comp NegM d a m = - m"
| "eval_comp IncD d a m = d + 1"
| "eval_comp IncA d a m = a + 1"
| "eval_comp IncM d a m = m + 1"
| "eval_comp DecD d a m = d - 1"
| "eval_comp DecA d a m = a - 1"
| "eval_comp DecM d a m = m - 1"
| "eval_comp DplusA d a m = d + a"
| "eval_comp DplusM d a m = d + m"
| "eval_comp DminusA d a m = d - a"
| "eval_comp DminusM d a m = d - m"
| "eval_comp AminusD d a m = a - d"
| "eval_comp MminusD d a m = m - d"
| "eval_comp DandA d a m = d AND a"
| "eval_comp DandM d a m = d AND m"
| "eval_comp DorA d a m = d OR a"
| "eval_comp DorM d a m = d OR m"

text \<open>The jump conditions compare the computed value, read as a signed number, with zero.\<close>

fun jump_taken :: "jump \<Rightarrow> 16 word \<Rightarrow> bool" where
  "jump_taken JNone v = False"
| "jump_taken JGT v = (0 < sint v)"
| "jump_taken JEQ v = (v = 0)"
| "jump_taken JGE v = (0 \<le> sint v)"
| "jump_taken JLT v = (sint v < 0)"
| "jump_taken JNE v = (v \<noteq> 0)"
| "jump_taken JLE v = (sint v \<le> 0)"
| "jump_taken JMP v = True"

fun step :: "instr \<Rightarrow> hack \<Rightarrow> hack" where
  "step (AInstr v) s = s\<lparr>regA := v, pc := pc s + 1\<rparr>"
| "step (CInstr da dd dm c j) s =
     (let a = regA s;
          v = eval_comp c (regD s) a (ram s a)
      in \<lparr>regA = (if da then v else a),
          regD = (if dd then v else regD s),
          ram = (if dm then (ram s)(a := v) else ram s),
          pc = (if jump_taken j v then unat a else pc s + 1)\<rparr>)"

text \<open>
  \<open>run n rom s\<close> executes \<open>n\<close> instructions of the instruction memory \<open>rom\<close>; fetching
  outside of it stops the machine with \<open>None\<close>.
\<close>

fun run :: "nat \<Rightarrow> instr list \<Rightarrow> hack \<Rightarrow> hack option" where
  "run 0 rom s = Some s"
| "run (Suc n) rom s = (if pc s < length rom then run n rom (step (rom ! pc s) s) else None)"

definition exec :: "instr list \<Rightarrow> hack \<Rightarrow> hack" where
  "exec code s = fold step code s"

subsection \<open>Reading the assembly text\<close>

definition asm_space :: "char \<Rightarrow> bool" where
  "asm_space c = (c = CHR '' '' \<or> c = TAB)"

fun before_comment :: "string \<Rightarrow> string" where
  "before_comment [] = []"
| "before_comment [c] = [c]"
| "before_comment (c # d # r) =
     (if c = CHR ''/'' \<and> d = CHR ''/'' then [] else c # before_comment (d # r))"

definition clean :: "string \<Rightarrow> string" where
  "clean l = filter (\<lambda>c. \<not> asm_space c) (before_comment l)"

definition predefined :: "(string \<times> 16 word) list" where
  "predefined =
    [(''SP'', 0), (''LCL'', 1), (''ARG'', 2), (''THIS'', 3), (''THAT'', 4),
     (''R0'', 0), (''R1'', 1), (''R2'', 2), (''R3'', 3), (''R4'', 4), (''R5'', 5),
     (''R6'', 6), (''R7'', 7), (''R8'', 8), (''R9'', 9), (''R10'', 10), (''R11'', 11),
     (''R12'', 12), (''R13'', 13), (''R14'', 14), (''R15'', 15),
     (''SCREEN'', 16384), (''KBD'', 24576)]"

text \<open>
  The operand of an A-instruction. \<open>tab\<close> is the assembler's table for the symbols that are
  not predefined: the labels of the program and its variables. A symbol may not start
  with a digit.
\<close>

definition a_value :: "(string \<Rightarrow> 16 word) \<Rightarrow> string \<Rightarrow> 16 word option" where
  "a_value tab x =
     (if x = [] then None
      else if is_ascii_digit (hd x) then
        (if list_all is_ascii_digit x \<and> nat_of_digits x < 32768
         then Some (word_of_nat (nat_of_digits x)) else None)
      else (case map_of predefined x of Some v \<Rightarrow> Some v | None \<Rightarrow> Some (tab x)))"

definition comp_table :: "(string \<times> comp) list" where
  "comp_table =
    [(''0'', Zero), (''1'', One), (''-1'', MinusOne), (''D'', ValD), (''A'', ValA),
     (''M'', ValM), (''!D'', NotD), (''!A'', NotA), (''!M'', NotM), (''-D'', NegD),
     (''-A'', NegA), (''-M'', NegM), (''D+1'', IncD), (''A+1'', IncA), (''M+1'', IncM),
     (''D-1'', DecD), (''A-1'', DecA), (''M-1'', DecM), (''D+A'', DplusA),
     (''D+M'', DplusM), (''D-A'', DminusA), (''D-M'', DminusM), (''A-D'', AminusD),
     (''M-D'', MminusD), (''D&A'', DandA), (''D&M'', DandM), (''D|A'', DorA),
     (''D|M'', DorM)]"

definition dest_table :: "(string \<times> bool \<times> bool \<times> bool) list" where
  "dest_table =
    [(''M'', (False, False, True)), (''D'', (False, True, False)),
     (''MD'', (False, True, True)), (''A'', (True, False, False)),
     (''AM'', (True, False, True)), (''AD'', (True, True, False)),
     (''AMD'', (True, True, True))]"

definition jump_table :: "(string \<times> jump) list" where
  "jump_table =
    [(''JGT'', JGT), (''JEQ'', JEQ), (''JGE'', JGE), (''JLT'', JLT), (''JNE'', JNE),
     (''JLE'', JLE), (''JMP'', JMP)]"

definition parse_c :: "string \<Rightarrow> instr option" where
  "parse_c t =
     (let has_dest = (CHR ''='' \<in> set t);
          dest_s = takeWhile (\<lambda>c. c \<noteq> CHR ''='') t;
          rest = (if has_dest then tl (dropWhile (\<lambda>c. c \<noteq> CHR ''='') t) else t);
          has_jump = (CHR '';'' \<in> set rest);
          comp_s = takeWhile (\<lambda>c. c \<noteq> CHR '';'') rest;
          jump_s = (if has_jump then tl (dropWhile (\<lambda>c. c \<noteq> CHR '';'') rest) else [])
      in case (if has_dest then map_of dest_table dest_s else Some (False, False, False)) of
           None \<Rightarrow> None
         | Some (da, dd, dm) \<Rightarrow>
             (case map_of comp_table comp_s of
                None \<Rightarrow> None
              | Some c \<Rightarrow>
                  (case (if has_jump then map_of jump_table jump_s else Some JNone) of
                     None \<Rightarrow> None
                   | Some j \<Rightarrow> Some (CInstr da dd dm c j))))"

definition parse_asm :: "(string \<Rightarrow> 16 word) \<Rightarrow> string \<Rightarrow> asm_line option" where
  "parse_asm tab l =
     (let t = clean l
      in if t = [] then Some Blank
         else if hd t = CHR ''('' then
           (if last t = CHR '')'' \<and> 2 < length t then Some (LabelDef (butlast (tl t)))
            else None)
         else if hd t = CHR ''@'' then
           map_option (\<lambda>v. Ins (AInstr v)) (a_value tab (tl t))
         else map_option Ins (parse_c t))"

text \<open>\<open>load\<close> is the instruction sequence of a text: label lines and blank lines take no room.\<close>

fun load :: "(string \<Rightarrow> 16 word) \<Rightarrow> string list \<Rightarrow> instr list option" where
  "load tab [] = Some []"
| "load tab (l # ls) =
     (case parse_asm tab l of
        None \<Rightarrow> None
      | Some Blank \<Rightarrow> load tab ls
      | Some (LabelDef x) \<Rightarrow> load tab ls
      | Some (Ins i) \<Rightarrow> map_option ((#) i) (load tab ls))"

section \<open>Notions used in the statements\<close>

text \<open>An instruction that never jumps: the program counter moves to the next instruction.\<close>

definition no_jump :: "instr \<Rightarrow> bool" where
  "no_jump i = (case i of AInstr v \<Rightarrow> True | CInstr da dd dm c j \<Rightarrow> j = JNone)"

text \<open>
  A name that the assembler reads back unchanged: not empty, without blanks and without
  a slash (so that no comment starts inside of it).
\<close>

definition plain_name :: "string \<Rightarrow> bool" where
  "plain_name w = (w \<noteq> [] \<and> (\<forall>c \<in> set w. \<not> asm_space c \<and> c \<noteq> CHR ''/''))"

text \<open>
  The results of the arithmetic commands as the specification words them, for \<open>x\<close> the
  next-to-top and \<open>y\<close> the top cell: Add is \<open>x + y\<close>, Sub is \<open>x - y\<close>, And and Or are
  bitwise; Neg and Not work on the top cell only.
\<close>

fun arith_result :: "ArithmeticType \<Rightarrow> 16 word \<Rightarrow> 16 word \<Rightarrow> 16 word" where
  "arith_result Add x y = x + y"
| "arith_result Sub x y = x - y"
| "arith_result And x y = x AND y"
| "arith_result Or x y = x OR y"
| "arith_result Neg x y = - y"
| "arith_result Not' x y = NOT y"

text \<open>A machine state with the operands 7 and 8 on a stack that starts at address 256.\<close>

definition two_operands :: hack where
  "two_operands = \<lparr>regA = 0, regD = 0, ram = (\<lambda>a. 0)(0 := 258, 256 := 7, 257 := 8), pc = 0\<rparr>"

text \<open>
  The comparison commands. The generated code tests the 16-bit difference \<open>x - y\<close> of the
  next-to-top and the top operand (\<open>difference_test\<close>, the jump the generator chooses);
  the specification speaks of the mathematical relation between the operands
  (\<open>relation_holds\<close>, on the operands read as signed numbers).
\<close>

definition compare_jump :: "ComparisonType \<Rightarrow> jump" where
  "compare_jump cType = (case cType of EQ \<Rightarrow> JEQ | GT \<Rightarrow> JGT | LT \<Rightarrow> JLT)"

definition difference_test :: "ComparisonType \<Rightarrow> 16 word \<Rightarrow> bool" where
  "difference_test cType d = (case cType of EQ \<Rightarrow> d = 0 | GT \<Rightarrow> 0 < sint d | LT \<Rightarrow> sint d < 0)"

definition relation_holds :: "ComparisonType \<Rightarrow> int \<Rightarrow> int \<Rightarrow> bool" where
  "relation_holds cType x y = (case cType of EQ \<Rightarrow> x = y | GT \<Rightarrow> x > y | LT \<Rightarrow> x < y)"

text \<open>The content of cell \<open>a\<close> after \<open>n\<close> instructions.\<close>

definition ram_after :: "nat \<Rightarrow> instr list \<Rightarrow> hack \<Rightarrow> 16 word \<Rightarrow> 16 word option" where
  "ram_after n rom s a = map_option (\<lambda>s'. ram s' a) (run n rom s)"

text \<open>A symbol table that puts every label at address 12, and two stacks of two operands.\<close>

definition label_at_12 :: "string \<Rightarrow> 16 word" where
  "label_at_12 x = 12"

definition extreme_operands :: hack where
  "extreme_operands =
     \<lparr>regA = 0, regD = 0, ram = (\<lambda>a. 0)(0 := 258, 256 := - 32768, 257 := 1), pc = 0\<rparr>"

text \<open>
  The labels in the generated text: line 1 of the code of a call is \<open>@\<close> followed by the
  return label, line 8 of the code of a comparison is \<open>@\<close> followed by the branch label.
\<close>

definition return_label_of :: "string list \<Rightarrow> string" where
  "return_label_of code = tl (code ! 1)"

definition compare_label_of :: "string list \<Rightarrow> string" where
  "compare_label_of code = tl (code ! 8)"

definition calls_in :: "processedLine list \<Rightarrow> nat" where
  "calls_in ls = length (filter (\<lambda>l. ctype_of l = CT_Call) ls)"

definition comparisons_in :: "processedLine list \<Rightarrow> nat" where
  "comparisons_in ls = length (filter (\<lambda>l. ctype_of l = CT_Comparison) ls)"

text \<open>Two calls of the same function and two equal comparisons, in different functions.\<close>

definition repeated_commands :: "processedLine list" where
  "repeated_commands =
     [FunLine CT_Function ''Sys.init'' 0, FunLine CT_Call ''Main.f'' 0, CompLine EQ,
      FunLine CT_Function ''Main.f'' 0, FunLine CT_Call ''Main.f'' 0, CompLine EQ]"

text \<open>The lines of the output file of a run; none when no file is written.\<close>

fun emitted :: "outcome \<Rightarrow> string list" where
  "emitted (Written out) = out"
| "emitted (Partial out) = out"
| "emitted other = []"

text \<open>
  Two encodings of the output file: one that can write every character of the model
  (as UTF-8 can), and one that can write the ASCII characters only.
\<close>

definition all_encodable :: "char \<Rightarrow> bool" where
  "all_encodable c = True"



text \<open>
  A one-file program: \<open>Sys.init\<close> defines the label \<open>LOOP\<close>, calls \<open>Main.f\<close> and jumps
  back to \<open>LOOP\<close>.
\<close>

definition loop_program :: "(string \<times> string list) list" where
  "loop_program =
     [(''Sys'', [''function Sys.init 0'', ''label LOOP'', ''call Main.f 0'', ''goto LOOP''])]"


text \<open>
  The instructions of the code of a call and of a return, without the final jump:
  \<open>r\<close> is the return address, \<open>nv\<close> the number of arguments and \<open>q\<close> the address of the
  callee.
\<close>

definition call_instrs :: "16 word \<Rightarrow> 16 word \<Rightarrow> 16 word \<Rightarrow> instr list" where
  "call_instrs r nv q =
     [AInstr r, CInstr False True False ValA JNone,
      AInstr 0, CInstr False False True IncM JNone, CInstr True False False DecM JNone,
      CInstr False False True ValD JNone,
      AInstr 1, CInstr False True False ValM JNone,
      AInstr 0, CInstr False False True IncM JNone, CInstr True False False DecM JNone,
      CInstr False False True ValD JNone,
      AInstr 2, CInstr False True False ValM JNone,
      AInstr 0, CInstr False False True IncM JNone, CInstr True False False DecM JNone,
      CInstr False False True ValD JNone,
      AInstr 3, CInstr False True False ValM JNone,
      AInstr 0, CInstr False False True IncM JNone, CInstr True False False DecM JNone,
      CInstr False False True ValD JNone,
      AInstr 4, CInstr False True False ValM JNone,
      AInstr 0, CInstr False False True IncM JNone, CInstr True False False DecM JNone,
      CInstr False False True ValD JNone,
      AInstr 0, CInstr False True False ValM JNone, AInstr 5, CInstr False True False DminusA JNone,
      AInstr nv, CInstr False True False DminusA JNone, AInstr 2, CInstr False False True ValD JNone,
      AInstr 0, CInstr False True False ValM JNone, AInstr 1, CInstr False False True ValD JNone,
      AInstr q]"

definition return_instrs :: "instr list" where
  "return_instrs =
     [AInstr 5, CInstr False True False ValA JNone, AInstr 1, CInstr True False False MminusD JNone,
      CInstr False True False ValM JNone, AInstr 13, CInstr False False True ValD JNone,
      AInstr 0, CInstr True False False DecM JNone, CInstr False True False ValM JNone,
      AInstr 2, CInstr True False False ValM JNone, CInstr False False True ValD JNone,
      AInstr 2, CInstr False True False IncM JNone, AInstr 0, CInstr False False True ValD JNone,
      AInstr 1, CInstr True False False DecM JNone, CInstr False True False ValM JNone,
      AInstr 4, CInstr False False True ValD JNone,
      AInstr 2, CInstr False True False ValA JNone, AInstr 1, CInstr True False False MminusD JNone,
      CInstr False True False ValM JNone, AInstr 3, CInstr False False True ValD JNone,
      AInstr 3, CInstr False True False ValA JNone, AInstr 1, CInstr True False False MminusD JNone,
      CInstr False True False ValM JNone, AInstr 2, CInstr False False True ValD JNone,
      AInstr 4, CInstr False True False ValA JNone, AInstr 1, CInstr True False False MminusD JNone,
      CInstr False True False ValM JNone, AInstr 1, CInstr False False True ValD JNone,
      AInstr 13, CInstr True False False ValM JNone]"

definition jmp :: instr where
  "jmp = CInstr False False False Zero JMP"

text \<open>
  A caller with two arguments on the stack, a symbol table that puts the callee at
  address 45 and every other label at 44, and a program that holds the code of a call,
  one more instruction, and the code of a return as the body of the callee.
\<close>

definition caller_state :: hack where
  "caller_state =
     \<lparr>regA = 0, regD = 0,
      ram = (\<lambda>a. 0)(0 := 258, 1 := 300, 2 := 400, 3 := 3000, 4 := 4000, 256 := 7, 257 := 8),
      pc = 0\<rparr>"

definition callee_at_45 :: "string \<Rightarrow> 16 word" where
  "callee_at_45 x = (if x = ''Main.f'' then 45 else 44)"

text \<open>
  The segments \<open>LCL\<close>, \<open>ARG\<close>, \<open>THIS\<close> and \<open>THAT\<close> are addressed through a pointer: the
  cell that the assembler binds to the name of the segment holds the base address, and
  the address of index \<open>i\<close> is the base plus \<open>i\<close>.
\<close>

definition segment_pointer :: "MemorySegment \<Rightarrow> 16 word" where
  "segment_pointer S = the (map_of predefined (sname S))"

definition resolved_address :: "MemorySegment \<Rightarrow> string \<Rightarrow> hack \<Rightarrow> 16 word" where
  "resolved_address S i s = word_of_nat (nat_of_digits i) + ram s (segment_pointer S)"

text \<open>
  A machine state with the operands 7 and 8 on the stack, the four segments at 300, 400,
  3000 and 4000, the value 55 in cell 2 of the local segment and 99 in cell 13.
\<close>

definition segment_state :: hack where
  "segment_state =
     \<lparr>regA = 0, regD = 0,
      ram = (\<lambda>a. 0)(0 := 258, 1 := 300, 2 := 400, 3 := 3000, 4 := 4000, 13 := 99,
                     256 := 7, 257 := 8, 302 := 55),
      pc = 0\<rparr>"

chapter \<open>Verification\<close>

section \<open>Reading the generated lines\<close>

lemmas parse_simps = parse_asm_def clean_def asm_space_def TAB_def a_value_def parse_c_def
  predefined_def comp_table_def dest_table_def jump_table_def is_ascii_digit_def
  nat_of_digits_def digit_val_def

lemma parse_comment [simp]: "parse_asm tab (cmt x) = Some Blank"
  by (simp add: parse_asm_def clean_def cmt_def asm_space_def)

lemma parse_empty [simp]: "parse_asm tab [] = Some Blank"
  by (simp add: parse_asm_def clean_def)

lemma parse_regs [simp]:
  "parse_asm tab ''@SP'' = Some (Ins (AInstr 0))"
  "parse_asm tab ''@LCL'' = Some (Ins (AInstr 1))"
  "parse_asm tab ''@ARG'' = Some (Ins (AInstr 2))"
  "parse_asm tab ''@THIS'' = Some (Ins (AInstr 3))"
  "parse_asm tab ''@THAT'' = Some (Ins (AInstr 4))"
  "parse_asm tab ''@R13'' = Some (Ins (AInstr 13))"
  "parse_asm tab ''@2'' = Some (Ins (AInstr 2))"
  "parse_asm tab ''@3'' = Some (Ins (AInstr 3))"
  "parse_asm tab ''@4'' = Some (Ins (AInstr 4))"
  "parse_asm tab ''@5'' = Some (Ins (AInstr 5))"
  "parse_asm tab ''@256'' = Some (Ins (AInstr 256))"
  by (simp_all add: parse_simps)

lemma parse_cinstrs [simp]:
  "parse_asm tab ''D=A'' = Some (Ins (CInstr False True False ValA JNone))"
  "parse_asm tab ''M=D'' = Some (Ins (CInstr False False True ValD JNone))"
  "parse_asm tab ''D=M'' = Some (Ins (CInstr False True False ValM JNone))"
  "parse_asm tab ''A=M'' = Some (Ins (CInstr True False False ValM JNone))"
  "parse_asm tab ''M=M+1'' = Some (Ins (CInstr False False True IncM JNone))"
  "parse_asm tab ''M=M-1'' = Some (Ins (CInstr False False True DecM JNone))"
  "parse_asm tab ''A=M-1'' = Some (Ins (CInstr True False False DecM JNone))"
  "parse_asm tab ''A=A-1'' = Some (Ins (CInstr True False False DecA JNone))"
  "parse_asm tab ''A=A+1'' = Some (Ins (CInstr True False False IncA JNone))"
  "parse_asm tab ''M=-M'' = Some (Ins (CInstr False False True NegM JNone))"
  "parse_asm tab ''M=!M'' = Some (Ins (CInstr False False True NotM JNone))"
  "parse_asm tab ''M=D+M'' = Some (Ins (CInstr False False True DplusM JNone))"
  "parse_asm tab ''M=M-D'' = Some (Ins (CInstr False False True MminusD JNone))"
  "parse_asm tab ''M=D&M'' = Some (Ins (CInstr False False True DandM JNone))"
  "parse_asm tab ''M=D|M'' = Some (Ins (CInstr False False True DorM JNone))"
  "parse_asm tab ''D=M-D'' = Some (Ins (CInstr False True False MminusD JNone))"
  "parse_asm tab ''M=-1'' = Some (Ins (CInstr False False True MinusOne JNone))"
  "parse_asm tab ''M=0'' = Some (Ins (CInstr False False True Zero JNone))"
  "parse_asm tab ''A=D+M'' = Some (Ins (CInstr True False False DplusM JNone))"
  "parse_asm tab ''D=D-A'' = Some (Ins (CInstr False True False DminusA JNone))"
  "parse_asm tab ''A=M-D'' = Some (Ins (CInstr True False False MminusD JNone))"
  "parse_asm tab ''D=M+1'' = Some (Ins (CInstr False True False IncM JNone))"
  by (simp_all add: parse_simps)

lemma parse_jumps [simp]:
  "parse_asm tab ''D;JEQ'' = Some (Ins (CInstr False False False ValD JEQ))"
  "parse_asm tab ''D;JGT'' = Some (Ins (CInstr False False False ValD JGT))"
  "parse_asm tab ''D;JLT'' = Some (Ins (CInstr False False False ValD JLT))"
  "parse_asm tab ''D;JNE'' = Some (Ins (CInstr False False False ValD JNE))"
  "parse_asm tab ''0;JMP'' = Some (Ins (CInstr False False False Zero JMP))"
  by (simp_all add: parse_simps)

section \<open>Running straight-line code\<close>

lemma step_pc: "no_jump i \<Longrightarrow> pc (step i s) = pc s + 1"
  by (cases i) (auto simp: no_jump_def Let_def)

lemma run_add: "run (m + n) rom s = (case run m rom s of None \<Rightarrow> None | Some s' \<Rightarrow> run n rom s')"
  by (induction m arbitrary: s) auto

lemma run_exec_aux:
  "list_all no_jump code \<Longrightarrow> pc s = length pre \<Longrightarrow>
   run (length code) (pre @ code @ post) s = Some (exec code s) \<and>
   pc (exec code s) = length pre + length code"
proof (induction code arbitrary: pre s)
  case Nil
  then show ?case by (simp add: exec_def)
next
  case (Cons i code)
  have a: "list_all no_jump code" using Cons.prems by simp
  have b: "pc (step i s) = length (pre @ [i])" using Cons.prems by (simp add: step_pc)
  from Cons.IH [OF a b] Cons.prems show ?case
    by (simp add: exec_def)
qed

lemma run_exec:
  "list_all no_jump code \<Longrightarrow> pc s = length pre \<Longrightarrow> n = length code \<Longrightarrow>
   run n (pre @ code @ post) s = Some (exec code s)"
  using run_exec_aux by blast

lemma pc_exec:
  "list_all no_jump code \<Longrightarrow> pc (exec code s) = pc s + length code"
  using run_exec_aux [of code s "replicate (pc s) (AInstr 0)"] by simp

lemma exec_Cons: "exec (i # is) s = exec is (step i s)"
  by (simp add: exec_def)

lemma exec_Nil: "exec [] s = s"
  by (simp add: exec_def)

lemma exec_append: "exec (xs @ ys) s = exec ys (exec xs s)"
  by (simp add: exec_def)

declare run.simps [simp del]

section \<open>Arithmetic commands\<close>

lemma arith_binary_exec:
  assumes c: "c \<in> {DplusM, MminusD, DandM, DorM}" and sp: "2 < unat (ram s 0)"
  shows "exec [AInstr 0, CInstr False False True DecM JNone,
            CInstr True False False ValM JNone, CInstr False True False ValM JNone,
            CInstr True False False DecA JNone, CInstr False False True c JNone] s
         = \<lparr>regA = ram s 0 - 2, regD = ram s (ram s 0 - 1),
                 ram = (ram s)(0 := ram s 0 - 1,
                   ram s 0 - 2 := eval_comp c (ram s (ram s 0 - 1)) (ram s 0 - 2) (ram s (ram s 0 - 2))),
                 pc = pc s + 6\<rparr>"
proof -
  have n: "ram s 0 \<noteq> 1" "ram s 0 \<noteq> 2" using sp by auto
  show ?thesis using n c by (auto simp add: exec_Cons exec_Nil Let_def)
qed

lemma arith_unary_exec:
  assumes c: "c \<in> {NegM, NotM}"
  shows "exec [AInstr 0, CInstr True False False DecM JNone, CInstr False False True c JNone] s
         = \<lparr>regA = ram s 0 - 1, regD = regD s,
                 ram = (ram s)(ram s 0 - 1 := eval_comp c (regD s) (ram s 0 - 1) (ram s (ram s 0 - 1))),
                 pc = pc s + 3\<rparr>"
  using c by (auto simp add: exec_Cons exec_Nil Let_def)

lemma load_arith:
  "load tab (GenerateArithmeticCode aType) = Some
     (if aType = Neg \<or> aType = Not'
      then [AInstr 0, CInstr True False False DecM JNone,
            CInstr False False True (if aType = Neg then NegM else NotM) JNone]
      else [AInstr 0, CInstr False False True DecM JNone,
            CInstr True False False ValM JNone, CInstr False True False ValM JNone,
            CInstr True False False DecA JNone,
            CInstr False False True (if aType = Add then DplusM else if aType = Sub then MminusD
               else if aType = And then DandM else DorM) JNone])"
  by (cases aType) (simp_all add: GenerateArithmeticCode_def)

text \<open>
  C7. The code of an arithmetic command, placed anywhere in the instruction memory and
  started at its first instruction with a stack of at least two cells above address 0,
  runs to its end. For Add, Sub, And and Or the stack pointer (cell 0) is one less, the
  cell below the old top holds the result (Add \<open>x + y\<close>, Sub \<open>x - y\<close> for \<open>x\<close> the
  next-to-top and \<open>y\<close> the top operand, And and Or bitwise) and no other cell changes.
  For Neg and Not the stack pointer stays and only the top cell changes, to \<open>- y\<close> and
  \<open>NOT y\<close>.
\<close>

theorem arithmetic_code_effect:
  assumes l: "load tab (GenerateArithmeticCode aType) = Some code"
    and p: "pc s = length pre"
    and sp: "2 < unat (ram s 0)"
  shows "\<exists>s'. run (length code) (pre @ code @ post) s = Some s'
     \<and> pc s' = length pre + length code
     \<and> (if aType = Neg \<or> aType = Not'
        then ram s' 0 = ram s 0
           \<and> ram s' (ram s 0 - 1) = arith_result aType (ram s (ram s 0 - 2)) (ram s (ram s 0 - 1))
           \<and> (\<forall>a. a \<noteq> ram s 0 - 1 \<longrightarrow> ram s' a = ram s a)
        else ram s' 0 = ram s 0 - 1
           \<and> ram s' (ram s 0 - 2) = arith_result aType (ram s (ram s 0 - 2)) (ram s (ram s 0 - 1))
           \<and> (\<forall>a. a \<noteq> 0 \<and> a \<noteq> ram s 0 - 2 \<longrightarrow> ram s' a = ram s a))"
proof -
  have n: "ram s 0 \<noteq> 1" "ram s 0 \<noteq> 2" using sp by auto
  have nj: "list_all no_jump code"
    using l by (cases aType) (auto simp add: load_arith no_jump_def)
  have r: "run (length code) (pre @ code @ post) s = Some (exec code s)"
    using nj p by (rule run_exec) simp
  have q: "pc (exec code s) = length pre + length code"
    using pc_exec [OF nj, of s] p by simp
  have e: "if aType = Neg \<or> aType = Not'
        then ram (exec code s) 0 = ram s 0
           \<and> ram (exec code s) (ram s 0 - 1) = arith_result aType (ram s (ram s 0 - 2)) (ram s (ram s 0 - 1))
           \<and> (\<forall>a. a \<noteq> ram s 0 - 1 \<longrightarrow> ram (exec code s) a = ram s a)
        else ram (exec code s) 0 = ram s 0 - 1
           \<and> ram (exec code s) (ram s 0 - 2) = arith_result aType (ram s (ram s 0 - 2)) (ram s (ram s 0 - 1))
           \<and> (\<forall>a. a \<noteq> 0 \<and> a \<noteq> ram s 0 - 2 \<longrightarrow> ram (exec code s) a = ram s a)"
    using l n sp
    by (cases aType)
       (auto simp add: load_arith arith_binary_exec arith_unary_exec and.commute or.commute)
  show ?thesis using r q e by blast
qed

theorem arithmetic_code_effect_witness:
  "load (\<lambda>x. 0) (GenerateArithmeticCode Add)
     = Some [AInstr 0, CInstr False False True DecM JNone, CInstr True False False ValM JNone,
             CInstr False True False ValM JNone, CInstr True False False DecA JNone,
             CInstr False False True DplusM JNone]
   \<and> pc two_operands = 0 \<and> 2 < unat (ram two_operands 0)
   \<and> (\<exists>s'. run (length [AInstr 0, CInstr False False True DecM JNone,
                 CInstr True False False ValM JNone, CInstr False True False ValM JNone,
                 CInstr True False False DecA JNone, CInstr False False True DplusM JNone])
             [AInstr 0, CInstr False False True DecM JNone, CInstr True False False ValM JNone,
              CInstr False True False ValM JNone, CInstr True False False DecA JNone,
              CInstr False False True DplusM JNone] two_operands = Some s'
          \<and> ram s' 0 = 257 \<and> ram s' 256 = 15)"
  using arithmetic_code_effect [of "\<lambda>x. 0" Add "[AInstr 0, CInstr False False True DecM JNone,
             CInstr True False False ValM JNone, CInstr False True False ValM JNone,
             CInstr True False False DecA JNone, CInstr False False True DplusM JNone]"
          two_operands "[]" "[]"]
  by (simp add: two_operands_def load_arith) blast

section \<open>Names and numbers in the generated lines\<close>

lemma before_comment_Cons: "c \<noteq> CHR ''/'' \<Longrightarrow> before_comment (c # r) = c # before_comment r"
  by (cases r) auto

lemma before_comment_append:
  "\<forall>c \<in> set w. c \<noteq> CHR ''/'' \<Longrightarrow> before_comment (w @ r) = w @ before_comment r"
  by (induction w) (auto simp add: before_comment_Cons)

lemma clean_name:
  "plain_name w \<Longrightarrow> clean (c # w @ r) = clean [c] @ w @ clean r" if "c \<noteq> CHR ''/''"
  using that before_comment_append [of w r]
  by (auto simp add: clean_def plain_name_def before_comment_Cons filter_id_conv)

lemma clean_cmt [simp]: "clean (cmt x) = []"
  by (simp add: clean_def asm_space_def cmt_def TAB_def)

lemma clean_paren_cmt [simp]: "clean (CHR '')'' # cmt x) = '')''"
  by (simp add: clean_def asm_space_def cmt_def TAB_def)

lemma parse_at_name:
  assumes "plain_name w" and "a_value tab w = Some v"
  shows "parse_asm tab (CHR ''@'' # w) = Some (Ins (AInstr v))"
    and "parse_asm tab (CHR ''@'' # w @ cmt x) = Some (Ins (AInstr v))"
  using assms clean_name [of "CHR ''@''" w "[]"] clean_name [of "CHR ''@''" w "cmt x"]
  by (simp_all add: parse_asm_def) (simp_all add: clean_def asm_space_def TAB_def)

lemma parse_label_name:
  assumes "plain_name w"
  shows "parse_asm tab (CHR ''('' # w @ '')'') = Some (LabelDef w)"
    and "parse_asm tab (CHR ''('' # w @ '')'' @ cmt x) = Some (LabelDef w)"
proof -
  have n: "w \<noteq> []" using assms by (simp add: plain_name_def)
  have a: "clean (CHR ''('' # w @ '')'') = CHR ''('' # w @ '')''"
    using clean_name [of "CHR ''(''" w "'')''"] assms
    by (simp add: clean_def asm_space_def TAB_def)
  have b: "clean (CHR ''('' # w @ '')'' @ cmt x) = CHR ''('' # w @ '')''"
    using clean_name [of "CHR ''(''" w "'')'' @ cmt x"] assms
    by (simp add: clean_def asm_space_def TAB_def cmt_def)
  have l: "2 < length (CHR ''('' # w @ '')'')" using n by (cases w) auto
  show "parse_asm tab (CHR ''('' # w @ '')'') = Some (LabelDef w)"
    unfolding parse_asm_def a Let_def using l by simp
  show "parse_asm tab (CHR ''('' # w @ '')'' @ cmt x) = Some (LabelDef w)"
    unfolding parse_asm_def b Let_def using l by simp
qed

lemma digit_char_digit: "d < 10 \<Longrightarrow> is_ascii_digit (digit_char d)"
proof -
  assume "d < 10"
  then have "d = 0 \<or> d = 1 \<or> d = 2 \<or> d = 3 \<or> d = 4 \<or> d = 5 \<or> d = 6 \<or> d = 7 \<or> d = 8 \<or> d = 9"
    by arith
  then show ?thesis
    by (elim disjE) (simp_all add: digit_char_def is_ascii_digit_def)
qed

lemma str_nat_digits: "list_all is_ascii_digit (str_nat n)"
proof (induction n rule: str_nat.induct)
  case (1 n)
  show ?case
  proof (cases "n < 10")
    case True
    have "str_nat n = [digit_char n]" using True by (subst str_nat.simps) simp
    then show ?thesis using digit_char_digit [OF True] by simp
  next
    case False
    have "str_nat n = str_nat (n div 10) @ [digit_char (n mod 10)]"
      using False by (subst str_nat.simps) simp
    then show ?thesis using 1 [OF False] digit_char_digit [of "n mod 10"] by simp
  qed
qed

lemma str_nat_nonempty: "str_nat n \<noteq> []"
  by (subst str_nat.simps) simp

lemma digit_plain: "is_ascii_digit c \<Longrightarrow> \<not> asm_space c \<and> c \<noteq> CHR ''/'' \<and> c \<noteq> CHR '':''"
  by (auto simp add: is_ascii_digit_def asm_space_def TAB_def)

lemma digits_plain: "list_all is_ascii_digit w \<Longrightarrow> w \<noteq> [] \<Longrightarrow> plain_name w"
  using digit_plain by (auto simp add: plain_name_def list_all_iff)

lemma plain_name_append:
  "plain_name v \<Longrightarrow> plain_name w \<Longrightarrow> plain_name (v @ w)"
  by (auto simp add: plain_name_def)

lemma plain_py_str: "plain_name (py_str k)"
proof -
  have "plain_name (str_nat n)" for n
    by (rule digits_plain [OF str_nat_digits str_nat_nonempty])
  moreover have "plain_name (CHR ''-'' # w)" if "plain_name w" for w
    using that by (simp add: plain_name_def asm_space_def TAB_def)
  ultimately show ?thesis by (simp add: py_str_def)
qed

lemma plain_compare_label: "plain_name (''COMPARE:'' @ py_str k)"
proof -
  have "plain_name ''COMPARE:''" by (simp add: plain_name_def asm_space_def TAB_def)
  then show ?thesis using plain_py_str by (rule plain_name_append)
qed

lemma a_value_compare_label:
  "a_value tab (''COMPARE:'' @ py_str k) = Some (tab (''COMPARE:'' @ py_str k))"
  by (simp add: a_value_def is_ascii_digit_def predefined_def)

lemma run_one:
  "pc s = length pre \<Longrightarrow> run 1 (pre @ i # post) s = Some (step i s)"
  by (simp add: run.simps One_nat_def)

section \<open>Comparison commands\<close>

lemma load_compare:
  "load tab (GenerateComparisonCode cType k) = Some
     ([AInstr 0, CInstr False False True DecM JNone, CInstr True False False ValM JNone,
       CInstr False True False ValM JNone, CInstr True False False DecA JNone,
       CInstr False True False MminusD JNone, CInstr False False True MinusOne JNone,
       AInstr (tab (''COMPARE:'' @ py_str k))]
      @ [CInstr False False False ValD (compare_jump cType)]
      @ [AInstr 0, CInstr True False False DecM JNone, CInstr False False True Zero JNone])"
  using parse_at_name(1) [OF plain_compare_label a_value_compare_label]
    parse_label_name(1) [OF plain_compare_label]
  by (cases cType) (simp_all add: GenerateComparisonCode_def compare_jump_def)

lemma compare_exec_first:
  assumes sp: "2 < unat (ram s 0)"
  shows "exec [AInstr 0, CInstr False False True DecM JNone, CInstr True False False ValM JNone,
       CInstr False True False ValM JNone, CInstr True False False DecA JNone,
       CInstr False True False MminusD JNone, CInstr False False True MinusOne JNone,
       AInstr l] s
     = \<lparr>regA = l, regD = ram s (ram s 0 - 2) - ram s (ram s 0 - 1),
        ram = (ram s)(0 := ram s 0 - 1, ram s 0 - 2 := - 1), pc = pc s + 8\<rparr>"
proof -
  have n: "ram s 0 \<noteq> 1" "ram s 0 \<noteq> 2" using sp by auto
  show ?thesis using n by (simp add: exec_Cons exec_Nil Let_def)
qed

lemma compare_exec_last:
  assumes "ram s 0 = t" and "t \<noteq> 0"
  shows "exec [AInstr 0, CInstr True False False DecM JNone, CInstr False False True Zero JNone] s
     = \<lparr>regA = t - 1, regD = regD s, ram = (ram s)(t - 1 := 0), pc = pc s + 3\<rparr>"
  using assms by (simp add: exec_Cons exec_Nil Let_def)

lemma jump_taken_compare: "jump_taken (compare_jump cType) d = difference_test cType d"
  by (cases cType) (simp_all add: compare_jump_def difference_test_def)

lemma difference_test_exact:
  assumes "cType = EQ \<or> (- 32768 \<le> sint x - sint y \<and> sint x - sint y \<le> 32767)"
  shows "difference_test cType (x - y) = relation_holds cType (sint x) (sint y)"
proof (cases "cType = EQ")
  case True
  have a: "(x - y = 0) = (x = y)" by simp
  have b: "(sint x = sint y) = (x = y)" using signed_word_eqI [of x y] by blast
  show ?thesis unfolding True difference_test_def relation_holds_def
    by (simp only: ComparisonType.case a b)
next
  case False
  with assms have r: "- 32768 \<le> sint x - sint y" "sint x - sint y \<le> 32767" by auto
  have "sint (x - y) = signed_take_bit 15 (sint x - sint y)"
    by (simp add: sint_word_diff)
  also have "\<dots> = sint x - sint y"
    using r by (intro signed_take_bit_int_eq_self) simp_all
  finally show ?thesis using False
    by (cases cType) (auto simp add: difference_test_def relation_holds_def)
qed

text \<open>
  C4, as amended. The code of a comparison command, placed anywhere in the instruction
  memory with its label \<open>COMPARE:k\<close> bound to the address behind it, runs from its first
  instruction to that address. It leaves the stack pointer one less and, in the cell
  below the old top, all bits set when the 16-bit difference \<open>x - y\<close> of the next-to-top
  and the top operand passes the test of the jump (zero for EQ, positive for GT, negative
  for LT) and zero otherwise; no other cell changes. The test agrees with the relation
  between the signed operands for EQ always, and for GT and LT whenever the difference of
  the operands fits into 16 signed bits.
\<close>

theorem comparison_code_effect:
  assumes l: "load tab (GenerateComparisonCode cType k) = Some code"
    and lab: "tab (''COMPARE:'' @ py_str k) = word_of_nat (length pre + length code)"
    and room: "length pre + length code < 32768"
    and p: "pc s = length pre"
    and sp: "2 < unat (ram s 0)"
  shows "\<exists>n s'. n \<le> length code \<and> run n (pre @ code @ post) s = Some s'
     \<and> pc s' = length pre + length code
     \<and> ram s' 0 = ram s 0 - 1
     \<and> ram s' (ram s 0 - 2)
         = (if difference_test cType (ram s (ram s 0 - 2) - ram s (ram s 0 - 1)) then - 1 else 0)
     \<and> (\<forall>a. a \<noteq> 0 \<and> a \<noteq> ram s 0 - 2 \<longrightarrow> ram s' a = ram s a)
     \<and> (cType = EQ \<or> (- 32768 \<le> sint (ram s (ram s 0 - 2)) - sint (ram s (ram s 0 - 1))
                       \<and> sint (ram s (ram s 0 - 2)) - sint (ram s (ram s 0 - 1)) \<le> 32767)
        \<longrightarrow> difference_test cType (ram s (ram s 0 - 2) - ram s (ram s 0 - 1))
            = relation_holds cType (sint (ram s (ram s 0 - 2))) (sint (ram s (ram s 0 - 1))))"
proof -
  let ?c1 = "[AInstr 0, CInstr False False True DecM JNone, CInstr True False False ValM JNone,
       CInstr False True False ValM JNone, CInstr True False False DecA JNone,
       CInstr False True False MminusD JNone, CInstr False False True MinusOne JNone,
       AInstr (tab (''COMPARE:'' @ py_str k))]"
  let ?j = "CInstr False False False ValD (compare_jump cType)"
  let ?c2 = "[AInstr 0, CInstr True False False DecM JNone, CInstr False False True Zero JNone]"
  let ?x = "ram s (ram s 0 - 2)"
  let ?y = "ram s (ram s 0 - 1)"
  let ?rom = "pre @ code @ post"
  have code: "code = ?c1 @ [?j] @ ?c2" using l by (simp add: load_compare)
  have len: "length code = 12" by (simp add: code)
  have n: "ram s 0 \<noteq> 1" "ram s 0 \<noteq> 2" using sp by auto
  have rom1: "?rom = pre @ ?c1 @ ([?j] @ ?c2 @ post)" by (simp add: code)
  have rom2: "?rom = (pre @ ?c1) @ ?j # (?c2 @ post)" by (simp add: code)
  have rom3: "?rom = (pre @ ?c1 @ [?j]) @ ?c2 @ post" by (simp add: code)
  define s1 where "s1 = exec ?c1 s"
  have s1: "s1 = \<lparr>regA = tab (''COMPARE:'' @ py_str k), regD = ?x - ?y,
        ram = (ram s)(0 := ram s 0 - 1, ram s 0 - 2 := - 1), pc = length pre + 8\<rparr>"
    unfolding s1_def using compare_exec_first [OF sp] p by simp
  have r1: "run 8 ?rom s = Some s1"
    unfolding s1_def rom1 by (rule run_exec) (simp_all add: no_jump_def p)
  have r2: "run 1 ?rom s1 = Some (step ?j s1)"
    unfolding rom2 by (rule run_one) (simp add: s1)
  have u: "unat (word_of_nat (length pre + 12) :: 16 word) = length pre + 12"
    using room by (subst unat_of_nat) (simp add: len)
  have target: "unat (tab (''COMPARE:'' @ py_str k)) = length pre + 12"
    unfolding lab len by (rule u)
  have exact: "cType = EQ \<or> (- 32768 \<le> sint ?x - sint ?y \<and> sint ?x - sint ?y \<le> 32767)
        \<longrightarrow> difference_test cType (?x - ?y) = relation_holds cType (sint ?x) (sint ?y)"
    using difference_test_exact by blast
  show ?thesis
  proof (cases "difference_test cType (?x - ?y)")
    case True
    define s2 where "s2 = step ?j s1"
    have s2: "s2 = s1\<lparr>pc := length pre + 12\<rparr>"
      unfolding s2_def using True target by (simp add: s1 jump_taken_compare)
    have "run (8 + 1) ?rom s = Some s2"
      unfolding s2_def by (simp only: run_add r1 r2 option.case)
    then have "run 9 ?rom s = Some s2" by simp
    moreover have "pc s2 = length pre + length code" by (simp add: s2 len)
    moreover have "ram s2 0 = ram s 0 - 1" using n by (simp add: s2 s1)
    moreover have "ram s2 (ram s 0 - 2) = - 1" by (simp add: s2 s1)
    moreover have "\<forall>a. a \<noteq> 0 \<and> a \<noteq> ram s 0 - 2 \<longrightarrow> ram s2 a = ram s a"
      by (simp add: s2 s1)
    moreover have "(9::nat) \<le> length code" by (simp add: len)
    ultimately show ?thesis using True exact by (intro exI [of _ 9] exI [of _ s2]) simp
  next
    case False
    define s2 where "s2 = step ?j s1"
    have s2: "s2 = s1\<lparr>pc := length pre + 9\<rparr>"
      unfolding s2_def using False by (simp add: s1 jump_taken_compare)
    define s3 where "s3 = exec ?c2 s2"
    have t: "ram s2 0 = ram s 0 - 1" using n by (simp add: s2 s1)
    have t0: "ram s 0 - 1 \<noteq> 0" using n by simp
    have s3: "s3 = \<lparr>regA = ram s 0 - 1 - 1, regD = regD s2,
        ram = (ram s2)(ram s 0 - 1 - 1 := 0), pc = pc s2 + 3\<rparr>"
      unfolding s3_def by (rule compare_exec_last [OF t t0])
    have r3: "run 3 ?rom s2 = Some s3"
      unfolding s3_def rom3 by (rule run_exec) (simp_all add: no_jump_def s2 s1)
    have "run (8 + (1 + 3)) ?rom s = Some s3"
      by (simp only: run_add r1 r2 r3 [unfolded s2_def] option.case)
    then have "run 12 ?rom s = Some s3" by simp
    moreover have "pc s3 = length pre + length code" by (simp add: s3 s2 len)
    moreover have "ram s3 0 = ram s 0 - 1" using n by (simp add: s3 s2 s1)
    moreover have "ram s3 (ram s 0 - 2) = 0" by (simp add: s3 s2 s1)
    moreover have "\<forall>a. a \<noteq> 0 \<and> a \<noteq> ram s 0 - 2 \<longrightarrow> ram s3 a = ram s a"
      by (simp add: s3 s2 s1)
    moreover have "(12::nat) \<le> length code" by (simp add: len)
    ultimately show ?thesis using False exact by (intro exI [of _ 12] exI [of _ s3]) simp
  qed
qed

lemma run_numeral:
  "run (numeral n) rom s =
     (if pc s < length rom then run (pred_numeral n) rom (step (rom ! pc s) s) else None)"
  by (simp add: numeral_eq_Suc run.simps)

theorem comparison_code_effect_witness:
  "load label_at_12 (GenerateComparisonCode LT 1)
     = Some (the (load label_at_12 (GenerateComparisonCode LT 1)))
   \<and> label_at_12 (''COMPARE:'' @ py_str 1)
       = word_of_nat (length ([] :: instr list)
                      + length (the (load label_at_12 (GenerateComparisonCode LT 1))))
   \<and> pc two_operands = length ([] :: instr list) \<and> 2 < unat (ram two_operands 0)
   \<and> (\<exists>n s'. run n (the (load label_at_12 (GenerateComparisonCode LT 1))) two_operands = Some s'
         \<and> pc s' = length (the (load label_at_12 (GenerateComparisonCode LT 1)))
         \<and> ram s' 0 = 257 \<and> ram s' 256 = - 1)"
proof -
  have d: "difference_test LT (7 - 8)" by (simp add: difference_test_def)
  show ?thesis
    using comparison_code_effect [of label_at_12 LT 1
        "the (load label_at_12 (GenerateComparisonCode LT 1))" "[]" two_operands "[]"] d
    by (simp add: load_compare label_at_12_def two_operands_def) blast
qed

text \<open>
  C4 as stated fails at the extreme values: for the operands \<open>-32768\<close> and \<open>1\<close> the code
  of \<open>gt\<close> leaves all bits set, although \<open>-32768 > 1\<close> does not hold. The difference
  wraps around to \<open>32767\<close>.
\<close>

theorem comparison_extreme_counterexample:
  "ram_after 9 (the (load label_at_12 (GenerateComparisonCode GT 1))) extreme_operands 256
     = Some (- 1)
   \<and> sint (ram extreme_operands 256) = - 32768
   \<and> sint (ram extreme_operands 257) = 1
   \<and> \<not> relation_holds GT (sint (ram extreme_operands 256)) (sint (ram extreme_operands 257))"
  by (simp add: load_compare ram_after_def extreme_operands_def label_at_12_def
        relation_holds_def compare_jump_def run_numeral run.simps Let_def)

section \<open>Labels of calls and comparisons\<close>

lemma digit_val_digit_char: "d < 10 \<Longrightarrow> digit_val (digit_char d) = d"
proof -
  assume "d < 10"
  then have "d = 0 \<or> d = 1 \<or> d = 2 \<or> d = 3 \<or> d = 4 \<or> d = 5 \<or> d = 6 \<or> d = 7 \<or> d = 8 \<or> d = 9"
    by arith
  then show ?thesis
    by (elim disjE) (simp_all add: digit_char_def digit_val_def)
qed

lemma nat_of_digits_snoc: "nat_of_digits (xs @ [c]) = 10 * nat_of_digits xs + digit_val c"
  by (simp add: nat_of_digits_def)

lemma nat_of_digits_str_nat: "nat_of_digits (str_nat n) = n"
proof (induction n rule: str_nat.induct)
  case (1 n)
  show ?case
  proof (cases "n < 10")
    case True
    have "str_nat n = [digit_char n]" using True by (subst str_nat.simps) simp
    then show ?thesis using digit_val_digit_char [OF True] by (simp add: nat_of_digits_def)
  next
    case False
    have "str_nat n = str_nat (n div 10) @ [digit_char (n mod 10)]"
      using False by (subst str_nat.simps) simp
    then show ?thesis
      using 1 [OF False] digit_val_digit_char [of "n mod 10"]
      by (simp add: nat_of_digits_snoc)
  qed
qed

lemma str_nat_inj: "str_nat a = str_nat b \<Longrightarrow> a = b"
  using nat_of_digits_str_nat by metis

lemma str_nat_no_minus: "str_nat a \<noteq> CHR ''-'' # w"
proof
  assume "str_nat a = CHR ''-'' # w"
  then have "is_ascii_digit CHR ''-''" using str_nat_digits [of a] by simp
  then show False by (simp add: is_ascii_digit_def)
qed

lemma py_str_inj: "py_str a = py_str b \<Longrightarrow> a = b"
proof -
  assume e: "py_str a = py_str b"
  show ?thesis
  proof (cases "a < 0"; cases "b < 0")
    assume "a < 0" "b < 0"
    with e have "nat (- a) = nat (- b)" by (auto simp add: py_str_def dest: str_nat_inj)
    then show ?thesis using \<open>a < 0\<close> \<open>b < 0\<close> by simp
  next
    assume "a < 0" "\<not> b < 0"
    with e have "str_nat (nat b) = CHR ''-'' # str_nat (nat (- a))" by (simp add: py_str_def)
    then show ?thesis using str_nat_no_minus by blast
  next
    assume "\<not> a < 0" "b < 0"
    with e have "str_nat (nat a) = CHR ''-'' # str_nat (nat (- b))" by (simp add: py_str_def)
    then show ?thesis using str_nat_no_minus by blast
  next
    assume "\<not> a < 0" "\<not> b < 0"
    with e have "nat a = nat b" by (auto simp add: py_str_def dest: str_nat_inj)
    then show ?thesis using \<open>\<not> a < 0\<close> \<open>\<not> b < 0\<close> by simp
  qed
qed

lemma py_str_no_colon: "CHR '':'' \<notin> set (py_str k)"
proof -
  have "CHR '':'' \<notin> set (str_nat n)" for n
    using str_nat_digits [of n] digit_plain by (auto simp add: list_all_iff)
  then show ?thesis by (simp add: py_str_def)
qed

lemma after_last_colon:
  assumes "x @ CHR '':'' # u = y @ CHR '':'' # v"
    and "CHR '':'' \<notin> set u" and "CHR '':'' \<notin> set v"
  shows "u = v"
proof -
  have "rev u @ CHR '':'' # rev x = rev v @ CHR '':'' # rev y"
    using arg_cong [OF assms(1), of rev] by simp
  then have "takeWhile (\<lambda>c. c \<noteq> CHR '':'') (rev u @ CHR '':'' # rev x)
           = takeWhile (\<lambda>c. c \<noteq> CHR '':'') (rev v @ CHR '':'' # rev y)"
    by simp
  moreover have "takeWhile (\<lambda>c. c \<noteq> CHR '':'') (rev u @ CHR '':'' # rev x) = rev u"
    using assms(2) by (auto simp add: takeWhile_tail)
  moreover have "takeWhile (\<lambda>c. c \<noteq> CHR '':'') (rev v @ CHR '':'' # rev y) = rev v"
    using assms(3) by (auto simp add: takeWhile_tail)
  ultimately show ?thesis by simp
qed

lemma counted_label_inj:
  "x @ CHR '':'' # py_str a = y @ CHR '':'' # py_str b \<Longrightarrow> a = b"
  using after_last_colon [OF _ py_str_no_colon py_str_no_colon] py_str_inj by blast

lemma return_label_of_call [simp]:
  "return_label_of (GenerateFunctionCallCode f n l) = l"
  by (simp add: return_label_of_def GenerateFunctionCallCode_def Let_def)

lemma compare_label_of_comparison [simp]:
  "compare_label_of (GenerateComparisonCode cType k) = ''COMPARE:'' @ py_str k"
  by (simp add: compare_label_of_def GenerateComparisonCode_def Let_def)

lemma translate_line_counts:
  assumes "translate_line c l = Some (c', t)"
  shows "callCount c' = callCount c + (if ctype_of l = CT_Call then 1 else 0)
       \<and> comparisonCount c' = comparisonCount c + (if ctype_of l = CT_Comparison then 1 else 0)"
  using assms
  by (cases "(c, l)" rule: translate_line.cases) (auto simp add: Let_def)

lemma translate_lines_nth:
  assumes "translate_lines c0 lines = Some (c, ts)" and "i < length lines"
  shows "\<exists>ci c'. translate_line ci (lines ! i) = Some (c', ts ! i)
       \<and> callCount ci = callCount c0 + int (calls_in (take i lines))
       \<and> comparisonCount ci = comparisonCount c0 + int (comparisons_in (take i lines))"
  using assms
proof (induction lines arbitrary: c0 ts i)
  case Nil
  then show ?case by simp
next
  case (Cons l ls)
  from Cons.prems(1) obtain c1 t ts' where
    a: "translate_line c0 l = Some (c1, t)" and
    b: "translate_lines c1 ls = Some (c, ts')" and
    ts: "ts = t # ts'"
    by (auto split: option.splits)
  show ?case
  proof (cases i)
    case 0
    then show ?thesis using a ts by (auto simp add: calls_in_def comparisons_in_def)
  next
    case (Suc k)
    then have k: "k < length ls" using Cons.prems(2) by simp
    from Cons.IH [OF b k] obtain ci c' where
      "translate_line ci (ls ! k) = Some (c', ts' ! k)"
      "callCount ci = callCount c1 + int (calls_in (take k ls))"
      "comparisonCount ci = comparisonCount c1 + int (comparisons_in (take k ls))"
      by blast
    then show ?thesis using Suc ts translate_line_counts [OF a]
      by (auto simp add: calls_in_def comparisons_in_def)
  qed
qed

lemma filter_take_less:
  assumes "i < j" and "j \<le> length ls" and "P (ls ! i)"
  shows "length (filter P (take i ls)) < length (filter P (take j ls))"
proof -
  have i: "i < length ls" using assms by simp
  have "take j ls = take (Suc i) ls @ take (j - Suc i) (drop (Suc i) ls)"
    using assms(1) take_add [of "Suc i" "j - Suc i" ls] by simp
  also have "take (Suc i) ls = take i ls @ [ls ! i]"
    using i by (rule take_Suc_conv_app_nth)
  finally show ?thesis using assms(3) by simp
qed

text \<open>
  C5. In one run of the translation loop over the commands of all files, the code of
  two different Call commands carries different return labels, each of the form
  \<open><callee>.RETURN:<n>\<close> with \<open>n\<close> the value of the call counter, which grows from the
  first to the second; and the code of two different Comparison commands carries
  different branch labels \<open>COMPARE:<n>\<close>, with \<open>n\<close> the growing comparison counter.
\<close>

theorem labels_never_repeat:
  assumes t: "translate_lines c0 lines = Some (c, ts)"
    and ij: "i < j" and j: "j < length lines"
  shows "(\<forall>f n g m. lines ! i = FunLine CT_Call f n \<and> lines ! j = FunLine CT_Call g m \<longrightarrow>
           (\<exists>a b. a < b
              \<and> return_label_of (ts ! i) = f @ ''.RETURN:'' @ py_str a
              \<and> return_label_of (ts ! j) = g @ ''.RETURN:'' @ py_str b)
           \<and> return_label_of (ts ! i) \<noteq> return_label_of (ts ! j))
       \<and> (\<forall>x y. lines ! i = CompLine x \<and> lines ! j = CompLine y \<longrightarrow>
           (\<exists>a b. a < b
              \<and> compare_label_of (ts ! i) = ''COMPARE:'' @ py_str a
              \<and> compare_label_of (ts ! j) = ''COMPARE:'' @ py_str b)
           \<and> compare_label_of (ts ! i) \<noteq> compare_label_of (ts ! j))"
proof -
  have i: "i < length lines" using ij j by simp
  from translate_lines_nth [OF t i] obtain ci ci' where
    ti: "translate_line ci (lines ! i) = Some (ci', ts ! i)" and
    cci: "callCount ci = callCount c0 + int (calls_in (take i lines))" and
    mci: "comparisonCount ci = comparisonCount c0 + int (comparisons_in (take i lines))"
    by blast
  from translate_lines_nth [OF t j] obtain cj cj' where
    tj: "translate_line cj (lines ! j) = Some (cj', ts ! j)" and
    ccj: "callCount cj = callCount c0 + int (calls_in (take j lines))" and
    mcj: "comparisonCount cj = comparisonCount c0 + int (comparisons_in (take j lines))"
    by blast
  have calls: "return_label_of (ts ! i) = f @ ''.RETURN:'' @ py_str (callCount ci + 1)
      \<and> return_label_of (ts ! j) = g @ ''.RETURN:'' @ py_str (callCount cj + 1)
      \<and> callCount ci + 1 < callCount cj + 1
      \<and> return_label_of (ts ! i) \<noteq> return_label_of (ts ! j)"
    if l: "lines ! i = FunLine CT_Call f n" "lines ! j = FunLine CT_Call g m" for f n g m
  proof -
    have "ts ! i = GenerateFunctionCallCode f n (f @ ''.RETURN:'' @ py_str (callCount ci + 1))"
      using ti l(1) by (auto simp add: Let_def)
    then have a: "return_label_of (ts ! i) = f @ ''.RETURN:'' @ py_str (callCount ci + 1)"
      by (simp only: return_label_of_call)
    have "ts ! j = GenerateFunctionCallCode g m (g @ ''.RETURN:'' @ py_str (callCount cj + 1))"
      using tj l(2) by (auto simp add: Let_def)
    then have b: "return_label_of (ts ! j) = g @ ''.RETURN:'' @ py_str (callCount cj + 1)"
      by (simp only: return_label_of_call)
    have "calls_in (take i lines) < calls_in (take j lines)"
      unfolding calls_in_def using ij j l(1) by (intro filter_take_less) simp_all
    then have lt: "callCount ci + 1 < callCount cj + 1" using cci ccj by simp
    have "return_label_of (ts ! i) \<noteq> return_label_of (ts ! j)"
    proof
      assume "return_label_of (ts ! i) = return_label_of (ts ! j)"
      then have "(f @ ''.RETURN'') @ CHR '':'' # py_str (callCount ci + 1)
               = (g @ ''.RETURN'') @ CHR '':'' # py_str (callCount cj + 1)"
        using a b by simp
      then have "callCount ci + 1 = callCount cj + 1" by (rule counted_label_inj)
      then show False using lt by simp
    qed
    then show ?thesis using a b lt by blast
  qed
  have comps: "compare_label_of (ts ! i) = ''COMPARE:'' @ py_str (comparisonCount ci + 1)
      \<and> compare_label_of (ts ! j) = ''COMPARE:'' @ py_str (comparisonCount cj + 1)
      \<and> comparisonCount ci + 1 < comparisonCount cj + 1
      \<and> compare_label_of (ts ! i) \<noteq> compare_label_of (ts ! j)"
    if l: "lines ! i = CompLine x" "lines ! j = CompLine y" for x y
  proof -
    have "ts ! i = GenerateComparisonCode x (comparisonCount ci + 1)"
      using ti l(1) by (auto simp add: Let_def)
    then have a: "compare_label_of (ts ! i) = ''COMPARE:'' @ py_str (comparisonCount ci + 1)"
      by (simp only: compare_label_of_comparison)
    have "ts ! j = GenerateComparisonCode y (comparisonCount cj + 1)"
      using tj l(2) by (auto simp add: Let_def)
    then have b: "compare_label_of (ts ! j) = ''COMPARE:'' @ py_str (comparisonCount cj + 1)"
      by (simp only: compare_label_of_comparison)
    have "comparisons_in (take i lines) < comparisons_in (take j lines)"
      unfolding comparisons_in_def using ij j l(1) by (intro filter_take_less) simp_all
    then have lt: "comparisonCount ci + 1 < comparisonCount cj + 1" using mci mcj by simp
    have "compare_label_of (ts ! i) \<noteq> compare_label_of (ts ! j)"
    proof
      assume "compare_label_of (ts ! i) = compare_label_of (ts ! j)"
      then have "''COMPARE'' @ CHR '':'' # py_str (comparisonCount ci + 1)
               = ''COMPARE'' @ CHR '':'' # py_str (comparisonCount cj + 1)"
        using a b by simp
      then have "comparisonCount ci + 1 = comparisonCount cj + 1" by (rule counted_label_inj)
      then show False using lt by simp
    qed
    then show ?thesis using a b lt by blast
  qed
  show ?thesis using calls comps by blast
qed

theorem labels_never_repeat_witness:
  "translate_lines initial_ctx repeated_commands
     = Some (fst (the (translate_lines initial_ctx repeated_commands)),
             snd (the (translate_lines initial_ctx repeated_commands)))
   \<and> (1::nat) < 4 \<and> 4 < length repeated_commands
   \<and> repeated_commands ! 1 = FunLine CT_Call ''Main.f'' 0
   \<and> repeated_commands ! 4 = FunLine CT_Call ''Main.f'' 0
   \<and> return_label_of (snd (the (translate_lines initial_ctx repeated_commands)) ! 1)
     \<noteq> return_label_of (snd (the (translate_lines initial_ctx repeated_commands)) ! 4)"
  using labels_never_repeat [of initial_ctx repeated_commands
      "fst (the (translate_lines initial_ctx repeated_commands))"
      "snd (the (translate_lines initial_ctx repeated_commands))" 1 4]
  by (simp add: repeated_commands_def initial_ctx_def Let_def)

section \<open>Scope of the control-flow labels\<close>

lemma parse_loop_program:
  "parse_files loop_program initial_pstate =
     Some \<lparr>processedLines = [FunLine CT_Function ''Sys.init'' 0, NameLine CT_Label ''LOOP'',
              FunLine CT_Call ''Main.f'' 0, NameLine CT_Goto ''LOOP''],
           errors = [], lineNumber = 4, sys_init = True,
           fileLines = [''function Sys.init 0'', ''label LOOP'', ''call Main.f 0'',
                        ''goto LOOP'']\<rparr>"
  by code_simp

text \<open>
  C2 does not hold of the code. The Call branch of the translation loop stores the callee
  in \<open>functionName\<close>, so a label command after a call is scoped with the callee's name and
  not with the name of the enclosing function. In \<open>loop_program\<close> the label \<open>LOOP\<close> of
  \<open>Sys.init\<close> is defined as \<open>Sys.init$LOOP\<close>, and the \<open>goto LOOP\<close> after the call of
  \<open>Main.f\<close> jumps to \<open>Main.f$LOOP\<close>, which no line defines.
\<close>

theorem label_scope_after_call:
  "''(Sys.init$LOOP)'' \<in> set (emitted (main all_encodable loop_program))
   \<and> ''(Main.f$LOOP)'' \<notin> set (emitted (main all_encodable loop_program))
   \<and> (''@Main.f$LOOP'' @ cmt ''Goto label Main.f$LOOP'') \<in> set (emitted (main all_encodable loop_program))
   \<and> (''@Sys.init$LOOP'' @ cmt ''Goto label Sys.init$LOOP'') \<notin> set (emitted (main all_encodable loop_program))"
  by code_simp

section \<open>The entry function and the output file\<close>






lemma write_lines_takeWhile:
  "write_lines enc ls
     = (takeWhile (\<lambda>l. list_all enc (l @ [CHR 0x0A])) ls,
        list_all (\<lambda>l. list_all enc (l @ [CHR 0x0A])) ls)"
  by (induction ls) (auto split: prod.splits)








section \<open>Pop into the constant segment\<close>

lemma pop_tail_exec:
  assumes sp: "15 < unat (ram s 0)"
  shows "exec [CInstr False True False ValA JNone, AInstr 13, CInstr False False True ValD JNone,
            AInstr 0, CInstr False False True DecM JNone, CInstr True False False ValM JNone,
            CInstr False True False ValM JNone, AInstr 13, CInstr True False False ValM JNone,
            CInstr False False True ValD JNone] s
     = \<lparr>regA = regA s, regD = ram s (ram s 0 - 1),
        ram = (ram s)(13 := regA s, 0 := ram s 0 - 1, regA s := ram s (ram s 0 - 1)),
        pc = pc s + 10\<rparr>"
proof -
  have n: "ram s 0 \<noteq> 1" "ram s 0 \<noteq> 14" using sp by auto
  show ?thesis using n by (simp add: exec_Cons exec_Nil Let_def)
qed

lemma load_pop_tail:
  "load tab [''D=A'', ''@R13'', ''M=D'', ''@SP'', ''M=M-1'', ''A=M'', ''D=M'', ''@R13'',
             ''A=M'', ''M=D'']
     = Some [CInstr False True False ValA JNone, AInstr 13, CInstr False False True ValD JNone,
            AInstr 0, CInstr False False True DecM JNone, CInstr True False False ValM JNone,
            CInstr False True False ValM JNone, AInstr 13, CInstr True False False ValM JNone,
            CInstr False False True ValD JNone]"
  by simp

text \<open>
  C10. For every index that \<open>isdigit\<close> accepts, the parser turns the words
  \<open>pop constant i\<close> into a valid Pop line of the Constant segment. The code generated for
  it is the comment followed at once by \<open>D=A\<close> and the common tail of every pop: no line
  loads a destination address. Started with the top of the stack above the registers,
  the code stores the popped value in the cell whose address the A register held before
  the first instruction (and leaves that address in cell 13 and the stack pointer one
  less).
\<close>

theorem pop_constant_uses_stale_address:
  assumes d: "py_isdigit i"
    and p: "pc s = length pre"
    and sp: "15 < unat (ram s 0)"
  shows "parse_words [''pop'', ''constant'', i] fileName k
           = Some (False, SegLine CT_Pop Constant i fileName)
     \<and> GeneratePopCode Constant i fileName
           = Some (cmt (''Pop Constant '' @ i) #
                   [''D=A'', ''@R13'', ''M=D'', ''@SP'', ''M=M-1'', ''A=M'', ''D=M'', ''@R13'',
                    ''A=M'', ''M=D''])
     \<and> (\<exists>code s'. load tab (the (GeneratePopCode Constant i fileName)) = Some code
           \<and> length code = 10
           \<and> run 10 (pre @ code @ post) s = Some s'
           \<and> pc s' = length pre + 10
           \<and> ram s' = (ram s)(13 := regA s, 0 := ram s 0 - 1,
                               regA s := ram s (ram s 0 - 1)))"
proof -
  let ?code = "[CInstr False True False ValA JNone, AInstr 13, CInstr False False True ValD JNone,
            AInstr 0, CInstr False False True DecM JNone, CInstr True False False ValM JNone,
            CInstr False True False ValM JNone, AInstr 13, CInstr True False False ValM JNone,
            CInstr False False True ValD JNone]"
  have a: "parse_words [''pop'', ''constant'', i] fileName k
           = Some (False, SegLine CT_Pop Constant i fileName)"
    using d by (simp add: parse_words_def InitializeCommandTypeDictionary_def
        InitializeMemorySegmentDictionary_def)
  have b: "GeneratePopCode Constant i fileName
           = Some (cmt (''Pop Constant '' @ i) #
                   [''D=A'', ''@R13'', ''M=D'', ''@SP'', ''M=M-1'', ''A=M'', ''D=M'', ''@R13'',
                    ''A=M'', ''M=D''])"
    by (simp add: GeneratePopCode_def)
  have l: "load tab (the (GeneratePopCode Constant i fileName)) = Some ?code"
    unfolding b using load_pop_tail [of tab] by simp
  have r: "run 10 (pre @ ?code @ post) s = Some (exec ?code s)"
    by (rule run_exec) (simp_all add: no_jump_def p)
  have e: "exec ?code s = \<lparr>regA = regA s, regD = ram s (ram s 0 - 1),
        ram = (ram s)(13 := regA s, 0 := ram s 0 - 1, regA s := ram s (ram s 0 - 1)),
        pc = pc s + 10\<rparr>"
    by (rule pop_tail_exec [OF sp])
  have c: "\<exists>code s'. load tab (the (GeneratePopCode Constant i fileName)) = Some code
           \<and> length code = 10
           \<and> run 10 (pre @ code @ post) s = Some s'
           \<and> pc s' = length pre + 10
           \<and> ram s' = (ram s)(13 := regA s, 0 := ram s 0 - 1,
                               regA s := ram s (ram s 0 - 1))"
    using l r e p by (intro exI [of _ ?code] exI [of _ "exec ?code s"]) simp
  show ?thesis using a b c by blast
qed

theorem pop_constant_uses_stale_address_witness:
  "py_isdigit ''5'' \<and> pc (two_operands\<lparr>regA := 1000\<rparr>) = 0
   \<and> 15 < unat (ram (two_operands\<lparr>regA := 1000\<rparr>) 0)
   \<and> parse_words [''pop'', ''constant'', ''5''] ''Main'' 1
        = Some (False, SegLine CT_Pop Constant ''5'' ''Main'')
   \<and> (\<exists>code s'. load label_at_12 (the (GeneratePopCode Constant ''5'' ''Main'')) = Some code
         \<and> run 10 code (two_operands\<lparr>regA := 1000\<rparr>) = Some s'
         \<and> ram s' 1000 = 8 \<and> ram s' 0 = 257)"
proof -
  let ?s = "two_operands\<lparr>regA := 1000\<rparr>"
  have d: "py_isdigit ''5''"
    by (simp add: py_isdigit_def py_isdigit_char_def is_ascii_digit_def)
  have p: "pc ?s = length ([] :: instr list)" by (simp add: two_operands_def)
  have sp: "15 < unat (ram ?s 0)" by (simp add: two_operands_def)
  from pop_constant_uses_stale_address [OF d p sp, of "''Main''" 1 label_at_12 "[]"]
  obtain code s' where
    w: "parse_words [''pop'', ''constant'', ''5''] ''Main'' 1
        = Some (False, SegLine CT_Pop Constant ''5'' ''Main'')" and
    l: "load label_at_12 (the (GeneratePopCode Constant ''5'' ''Main'')) = Some code" and
    r: "run 10 ([] @ code @ []) ?s = Some s'" and
    m: "ram s' = (ram ?s)(13 := regA ?s, 0 := ram ?s 0 - 1, regA ?s := ram ?s (ram ?s 0 - 1))"
    by blast
  have v: "ram s' 1000 = 8 \<and> ram s' 0 = 257" unfolding m by (simp add: two_operands_def)
  have r': "run 10 code ?s = Some s'" using r by simp
  show ?thesis using d p sp w l r' v by auto
qed

section \<open>Call and return\<close>

lemma stack_above_registers:
  fixes sp :: "16 word"
  assumes "15 < unat sp"
  shows "sp \<noteq> 0" "sp \<noteq> 1" "sp \<noteq> 2" "sp \<noteq> 3" "sp \<noteq> 4" "sp \<noteq> 5" "sp \<noteq> 13"
    "sp \<noteq> 14" "sp \<noteq> 15"
  using assms by auto

lemma add_small_nonzero:
  fixes sp :: "16 word"
  assumes "unat sp + unat k < 65536" and "k \<noteq> 0"
  shows "sp + k \<noteq> 0" and "k + sp \<noteq> 0"
proof -
  have "unat (sp + k) = unat sp + unat k"
    using assms(1) unat_add_lem [of sp k] by simp
  moreover have "unat k \<noteq> 0" using assms(2) by (simp add: unat_0_iff)
  ultimately have "unat (sp + k) \<noteq> 0" by simp
  then show "sp + k \<noteq> 0" by (simp add: unat_0_iff)
  then show "k + sp \<noteq> 0" by (simp add: add.commute)
qed

lemma stack_no_wrap:
  fixes sp :: "16 word"
  assumes l: "unat sp + 5 < 65536"
  shows "1 + sp \<noteq> 0" "2 + sp \<noteq> 0" "3 + sp \<noteq> 0" "4 + sp \<noteq> 0" "5 + sp \<noteq> 0"
    "sp + 1 \<noteq> 0" "sp + 2 \<noteq> 0" "sp + 3 \<noteq> 0" "sp + 4 \<noteq> 0" "sp + 5 \<noteq> 0"
  using l add_small_nonzero [of sp 1] add_small_nonzero [of sp 2] add_small_nonzero [of sp 3]
    add_small_nonzero [of sp 4] add_small_nonzero [of sp 5]
  by simp_all

lemma call_exec:
  assumes sp: "15 < unat (ram s 0)" and top: "unat (ram s 0) + 5 < 65536"
  shows "pc (exec (call_instrs r nv q) s) = pc s + 43
       \<and> regA (exec (call_instrs r nv q) s) = q
       \<and> ram (exec (call_instrs r nv q) s) 0 = ram s 0 + 5
       \<and> ram (exec (call_instrs r nv q) s) 1 = ram s 0 + 5
       \<and> ram (exec (call_instrs r nv q) s) 2 = ram s 0 - nv
       \<and> ram (exec (call_instrs r nv q) s) 3 = ram s 3
       \<and> ram (exec (call_instrs r nv q) s) 4 = ram s 4
       \<and> ram (exec (call_instrs r nv q) s) (ram s 0) = r
       \<and> ram (exec (call_instrs r nv q) s) (ram s 0 + 1) = ram s 1
       \<and> ram (exec (call_instrs r nv q) s) (ram s 0 + 2) = ram s 2
       \<and> ram (exec (call_instrs r nv q) s) (ram s 0 + 3) = ram s 3
       \<and> ram (exec (call_instrs r nv q) s) (ram s 0 + 4) = ram s 4
       \<and> (\<forall>a. a \<noteq> 0 \<and> a \<noteq> 1 \<and> a \<noteq> 2 \<and> a \<noteq> ram s 0 \<and> a \<noteq> ram s 0 + 1 \<and> a \<noteq> ram s 0 + 2
              \<and> a \<noteq> ram s 0 + 3 \<and> a \<noteq> ram s 0 + 4
            \<longrightarrow> ram (exec (call_instrs r nv q) s) a = ram s a)"
  using stack_above_registers [OF sp] stack_no_wrap [OF top]
  by (simp add: call_instrs_def exec_Cons exec_Nil Let_def)

lemma load_return:
  "load tab GenerateReturnCode = Some (return_instrs @ [jmp])"
  by (simp add: GenerateReturnCode_def return_instrs_def jmp_def)

lemma unat_minus_small:
  fixes l :: "16 word"
  assumes "unat k \<le> unat l"
  shows "unat (l - k) = unat l - unat k"
  using assms by (simp add: unat_sub word_le_nat_alt)

lemma return_exec:
  assumes g: "15 < unat (ram s 2)"
    and f: "unat (ram s 2) + 5 \<le> unat (ram s 1)"
    and t: "15 < unat (ram s 0)"
  shows "pc (exec return_instrs s) = pc s + 45
       \<and> regA (exec return_instrs s) = ram s (ram s 1 - 5)
       \<and> ram (exec return_instrs s) 0 = ram s 2 + 1
       \<and> ram (exec return_instrs s) 1 = ram s (ram s 1 - 4)
       \<and> ram (exec return_instrs s) 2 = ram s (ram s 1 - 3)
       \<and> ram (exec return_instrs s) 3 = ram s (ram s 1 - 2)
       \<and> ram (exec return_instrs s) 4 = ram s (ram s 1 - 1)
       \<and> ram (exec return_instrs s) (ram s 2) = ram s (ram s 0 - 1)
       \<and> (\<forall>a. a \<noteq> 0 \<and> a \<noteq> 1 \<and> a \<noteq> 2 \<and> a \<noteq> 3 \<and> a \<noteq> 4 \<and> a \<noteq> 13 \<and> a \<noteq> ram s 2
            \<longrightarrow> ram (exec return_instrs s) a = ram s a)"
proof -
  define l where "l = ram s 1"
  define g where "g = ram s 2"
  define t where "t = ram s 0"
  have u: "unat (l - 1) = unat l - 1" "unat (l - 2) = unat l - 2" "unat (l - 3) = unat l - 3"
    "unat (l - 4) = unat l - 4" "unat (l - 5) = unat l - 5" "unat (t - 1) = unat t - 1"
    using f t unat_minus_small [of 1 l] unat_minus_small [of 2 l] unat_minus_small [of 3 l]
      unat_minus_small [of 4 l] unat_minus_small [of 5 l] unat_minus_small [of 1 t]
    by (simp_all add: l_def t_def)
  have d: "g \<noteq> 0" "g \<noteq> 1" "g \<noteq> 2" "g \<noteq> 3" "g \<noteq> 4" "g \<noteq> 13"
    "l - 1 \<noteq> 0" "l - 1 \<noteq> 1" "l - 1 \<noteq> 2" "l - 1 \<noteq> 3" "l - 1 \<noteq> 4" "l - 1 \<noteq> 13" "l - 1 \<noteq> g"
    "l - 2 \<noteq> 0" "l - 2 \<noteq> 1" "l - 2 \<noteq> 2" "l - 2 \<noteq> 3" "l - 2 \<noteq> 4" "l - 2 \<noteq> 13" "l - 2 \<noteq> g"
    "l - 3 \<noteq> 0" "l - 3 \<noteq> 1" "l - 3 \<noteq> 2" "l - 3 \<noteq> 3" "l - 3 \<noteq> 4" "l - 3 \<noteq> 13" "l - 3 \<noteq> g"
    "l - 4 \<noteq> 0" "l - 4 \<noteq> 1" "l - 4 \<noteq> 2" "l - 4 \<noteq> 3" "l - 4 \<noteq> 4" "l - 4 \<noteq> 13" "l - 4 \<noteq> g"
    "t - 1 \<noteq> 13"
    using g f t u by (auto simp add: g_def l_def t_def word_unat_eq_iff)
  show ?thesis
    using d unfolding l_def g_def t_def
    by (simp add: return_instrs_def exec_Cons exec_Nil Let_def)
qed

lemma a_value_py_str:
  assumes "0 \<le> n" and "n < 32768"
  shows "a_value tab (py_str n) = Some (word_of_int n)"
proof -
  have s: "py_str n = str_nat (nat n)" using assms(1) by (simp add: py_str_def)
  have d: "list_all is_ascii_digit (str_nat (nat n))" by (rule str_nat_digits)
  have e: "str_nat (nat n) \<noteq> []" by (rule str_nat_nonempty)
  have h: "is_ascii_digit (hd (str_nat (nat n)))"
    using d e by (cases "str_nat (nat n)") simp_all
  have v: "nat_of_digits (str_nat (nat n)) = nat n" by (rule nat_of_digits_str_nat)
  have w: "(word_of_nat (nat n) :: 16 word) = word_of_int n" using assms(1) by simp
  show ?thesis
    unfolding s a_value_def using d e h v w assms by simp
qed

lemma load_call:
  assumes "plain_name f" and "plain_name retl"
    and "a_value tab f = Some q" and "a_value tab retl = Some r"
    and "0 \<le> n" and "n < 32768"
  shows "load tab (GenerateFunctionCallCode f n retl)
           = Some (call_instrs r (word_of_int n) q @ [jmp])"
  using parse_at_name(1) [OF assms(1) assms(3)] parse_at_name(1) [OF assms(2) assms(4)]
    parse_at_name(1) [OF plain_py_str a_value_py_str [OF assms(5) assms(6)]]
    parse_label_name(2) [OF assms(2)]
  by (simp add: GenerateFunctionCallCode_def PushAddress_def call_instrs_def jmp_def Let_def)

lemma step_jmp: "step jmp s = s\<lparr>pc := unat (regA s)\<rparr>"
  by (simp add: jmp_def Let_def)

lemma run_code_then_jmp:
  assumes nj: "list_all no_jump code" and p: "pc s = length pre" and n: "n = length code + 1"
  shows "run n (pre @ (code @ [jmp]) @ post) s
           = Some ((exec code s)\<lparr>pc := unat (regA (exec code s))\<rparr>)"
proof -
  define rom where "rom = pre @ (code @ [jmp]) @ post"
  have e1: "rom = pre @ code @ ([jmp] @ post)" by (simp add: rom_def)
  have e2: "rom = (pre @ code) @ jmp # post" by (simp add: rom_def)
  have r1: "run (length code) rom s = Some (exec code s)"
    unfolding e1 using nj p by (rule run_exec) simp
  have q: "pc (exec code s) = length (pre @ code)"
    using pc_exec [OF nj, of s] p by simp
  have r2: "run 1 rom (exec code s) = Some (step jmp (exec code s))"
    unfolding e2 using q by (rule run_one)
  have "run (length code + 1) rom s = Some (step jmp (exec code s))"
    by (simp only: run_add r1 r2 option.case)
  then show ?thesis unfolding n rom_def step_jmp .
qed

text \<open>
  C1. Let a program hold the code of \<open>Call(f, n)\<close> and, as the entry of \<open>f\<close>, the code of
  a Return, with the symbols \<open>f\<close> and the return label bound to these places. Started at
  the call with the \<open>n\<close> arguments on a stack above the registers, the machine reaches
  the entry of \<open>f\<close> after the instructions of the call and, after the instructions of the
  return, the instruction behind the call. There the cells of Local, Argument, This and
  That hold their values from before the call, the stack pointer is the one from before
  the call minus \<open>n\<close> plus 1, and the new top cell holds what the top cell of the
  callee's stack held on entry.
\<close>

theorem call_then_return:
  assumes lc: "load tab (GenerateFunctionCallCode f n retl) = Some ccode"
    and lr: "load tab GenerateReturnCode = Some rcode"
    and names: "plain_name f" "plain_name retl"
    and count: "0 \<le> n" "n < 32768"
    and callee: "a_value tab f = Some (word_of_nat (length pre'))"
    and ret: "a_value tab retl = Some (word_of_nat (length pre + length ccode))"
    and rom: "rom = pre @ ccode @ post" "rom = pre' @ rcode @ post'"
    and fits: "length rom \<le> 32768"
    and p: "pc s = length pre"
    and args: "15 + nat n < unat (ram s 0)"
    and top: "unat (ram s 0) + 5 < 65536"
  shows "\<exists>s1 s'. run (length ccode) rom s = Some s1
       \<and> pc s1 = length pre'
       \<and> run (length rcode) rom s1 = Some s'
       \<and> pc s' = length pre + length ccode
       \<and> ram s' 1 = ram s 1 \<and> ram s' 2 = ram s 2 \<and> ram s' 3 = ram s 3 \<and> ram s' 4 = ram s 4
       \<and> ram s' 0 = ram s 0 - word_of_int n + 1
       \<and> ram s' (ram s' 0 - 1) = ram s1 (ram s1 0 - 1)"
proof -
  define sp where "sp = ram s 0"
  define nv :: "16 word" where "nv = word_of_int n"
  define q :: "16 word" where "q = word_of_nat (length pre')"
  define r :: "16 word" where "r = word_of_nat (length pre + length ccode)"
  have cc: "ccode = call_instrs r nv q @ [jmp]"
    using lc load_call [OF names callee ret count] by (simp add: r_def nv_def q_def)
  have rc: "rcode = return_instrs @ [jmp]" using lr by (simp add: load_return)
  have lcc: "length ccode = 44" by (simp add: cc call_instrs_def)
  have lrc: "length rcode = 46" by (simp add: rc return_instrs_def)
  have uq: "unat q = length pre'"
    unfolding q_def using fits rom(2) by (subst unat_of_nat) simp
  have ur: "unat r = length pre + length ccode"
    unfolding r_def using fits rom(1) by (subst unat_of_nat) simp
  have un: "unat nv = nat n"
    unfolding nv_def using count by (simp add: unat_eq_nat_uint uint_word_of_int)
  have sp15: "15 < unat (ram s 0)" using args by simp
  note ce = call_exec [OF sp15 top, of r nv q]
  have njc: "list_all no_jump (call_instrs r nv q)"
    by (simp add: call_instrs_def no_jump_def)
  have njr: "list_all no_jump return_instrs"
    by (simp add: return_instrs_def no_jump_def)
  define s1 where "s1 = (exec (call_instrs r nv q) s)\<lparr>pc := unat (regA (exec (call_instrs r nv q) s))\<rparr>"
  have r1: "run (length ccode) rom s = Some s1"
    unfolding s1_def rom(1) cc
    by (rule run_code_then_jmp [OF njc p]) simp
  have pc1: "pc s1 = length pre'" using ce uq by (simp add: s1_def)
  have m1: "ram s1 = ram (exec (call_instrs r nv q) s)" by (simp add: s1_def)
  have usub: "unat (sp - nv) = unat sp - nat n"
    using unat_minus_small [of nv sp] un args by (simp add: sp_def)
  have uadd: "unat (sp + 5) = unat sp + 5"
    using top unat_add_lem [of sp 5] by (simp add: sp_def)
  have g1: "15 < unat (ram s1 2)" using ce usub args by (simp add: m1 sp_def)
  have f1: "unat (ram s1 2) + 5 \<le> unat (ram s1 1)"
    using ce usub uadd args by (simp add: m1 sp_def)
  have t1: "15 < unat (ram s1 0)" using ce uadd args by (simp add: m1 sp_def)
  note re = return_exec [OF g1 f1 t1]
  define s' where "s' = (exec return_instrs s1)\<lparr>pc := unat (regA (exec return_instrs s1))\<rparr>"
  have r2: "run (length rcode) rom s1 = Some s'"
    unfolding s'_def rom(2) rc
    by (rule run_code_then_jmp [OF njr pc1]) simp
  have m2: "ram s' = ram (exec return_instrs s1)" by (simp add: s'_def)
  have l1: "ram s1 1 = sp + 5" and a1: "ram s1 2 = sp - nv" and t0: "ram s1 0 = sp + 5"
    using ce by (simp_all add: m1 sp_def)
  have fr: "ram s1 sp = r" "ram s1 (sp + 1) = ram s 1" "ram s1 (sp + 2) = ram s 2"
    "ram s1 (sp + 3) = ram s 3" "ram s1 (sp + 4) = ram s 4"
    using ce by (simp_all add: m1 sp_def)
  have fr': "ram s1 (1 + sp) = ram s 1" "ram s1 (2 + sp) = ram s 2"
    "ram s1 (3 + sp) = ram s 3" "ram s1 (4 + sp) = ram s 4"
    using fr by (simp_all add: add.commute)
  have pc2: "pc s' = length pre + length ccode"
    using re fr(1) ur by (simp add: s'_def l1)
  have v1: "ram s' 1 = ram s 1" using re fr fr' by (simp add: m2 l1)
  have v2: "ram s' 2 = ram s 2" using re fr fr' by (simp add: m2 l1)
  have v3: "ram s' 3 = ram s 3" using re fr fr' by (simp add: m2 l1)
  have v4: "ram s' 4 = ram s 4" using re fr fr' by (simp add: m2 l1)
  have v0: "ram s' 0 = ram s 0 - word_of_int n + 1"
    using re by (simp add: m2 a1 sp_def nv_def)
  have vt: "ram s' (ram s' 0 - 1) = ram s1 (ram s1 0 - 1)"
    using re by (simp add: m2 a1)
  show ?thesis using r1 pc1 r2 pc2 v1 v2 v3 v4 v0 vt by blast
qed

theorem call_then_return_witness:
  "plain_name ''Main.f'' \<and> plain_name ''Main.f.RETURN:1''
   \<and> load callee_at_45 (GenerateFunctionCallCode ''Main.f'' 2 ''Main.f.RETURN:1'')
       = Some (call_instrs 44 2 45 @ [jmp])
   \<and> load callee_at_45 GenerateReturnCode = Some (return_instrs @ [jmp])
   \<and> pc caller_state = 0 \<and> 15 + nat 2 < unat (ram caller_state 0)
   \<and> (\<exists>s1 s'. run (length (call_instrs 44 2 45 @ [jmp]))
                  ((call_instrs 44 2 45 @ [jmp]) @ [AInstr 0] @ (return_instrs @ [jmp]))
                  caller_state = Some s1
         \<and> pc s1 = 45
         \<and> run (length (return_instrs @ [jmp]))
                  ((call_instrs 44 2 45 @ [jmp]) @ [AInstr 0] @ (return_instrs @ [jmp]))
                  s1 = Some s'
         \<and> pc s' = 44
         \<and> ram s' 1 = 300 \<and> ram s' 2 = 400 \<and> ram s' 3 = 3000 \<and> ram s' 4 = 4000
         \<and> ram s' 0 = 257)"
proof -
  let ?cc = "call_instrs 44 2 45 @ [jmp]"
  let ?rc = "return_instrs @ [jmp]"
  let ?rom = "?cc @ [AInstr 0] @ ?rc"
  have n1: "plain_name ''Main.f''" by (simp add: plain_name_def asm_space_def TAB_def)
  have n2: "plain_name ''Main.f.RETURN:1''" by (simp add: plain_name_def asm_space_def TAB_def)
  have a1: "a_value callee_at_45 ''Main.f'' = Some 45"
    by (simp add: a_value_def is_ascii_digit_def predefined_def callee_at_45_def)
  have a2: "a_value callee_at_45 ''Main.f.RETURN:1'' = Some 44"
    by (simp add: a_value_def is_ascii_digit_def predefined_def callee_at_45_def)
  have lc: "load callee_at_45 (GenerateFunctionCallCode ''Main.f'' 2 ''Main.f.RETURN:1'')
       = Some ?cc"
    using load_call [OF n1 n2 a1 a2, of 2] by simp
  have lr: "load callee_at_45 GenerateReturnCode = Some ?rc" by (rule load_return)
  have len: "length ?cc = 44" "length ?rc = 46"
    by (simp_all add: call_instrs_def return_instrs_def)
  have callee: "a_value callee_at_45 ''Main.f''
      = Some (word_of_nat (length (?cc @ [AInstr 0])))"
    using a1 len by simp
  have ret: "a_value callee_at_45 ''Main.f.RETURN:1''
      = Some (word_of_nat (length ([] :: instr list) + length ?cc))"
    using a2 len by simp
  have rom1: "?rom = [] @ ?cc @ ([AInstr 0] @ ?rc)" by simp
  have rom2: "?rom = (?cc @ [AInstr 0]) @ ?rc @ []" by simp
  have fits: "length ?rom \<le> 32768" using len by simp
  have p: "pc caller_state = length ([] :: instr list)" by (simp add: caller_state_def)
  have args: "15 + nat 2 < unat (ram caller_state 0)" by (simp add: caller_state_def)
  have top: "unat (ram caller_state 0) + 5 < 65536" by (simp add: caller_state_def)
  from call_then_return [OF lc lr n1 n2 _ _ callee ret rom1 rom2 fits p args top]
  obtain s1 s' where
    r1: "run (length ?cc) ?rom caller_state = Some s1" and
    p1: "pc s1 = length (?cc @ [AInstr 0])" and
    r2: "run (length ?rc) ?rom s1 = Some s'" and
    p2: "pc s' = length ([] :: instr list) + length ?cc" and
    v: "ram s' 1 = ram caller_state 1" "ram s' 2 = ram caller_state 2"
       "ram s' 3 = ram caller_state 3" "ram s' 4 = ram caller_state 4"
       "ram s' 0 = ram caller_state 0 - word_of_int 2 + 1"
    by auto
  have p1': "pc s1 = 45" using p1 len by simp
  have p2': "pc s' = 44" using p2 len by simp
  have v': "ram s' 1 = 300" "ram s' 2 = 400" "ram s' 3 = 3000" "ram s' 4 = 4000"
    "ram s' 0 = 257"
    using v by (simp_all add: caller_state_def)
  have e: "\<exists>s1 s'. run (length ?cc) ?rom caller_state = Some s1 \<and> pc s1 = 45
         \<and> run (length ?rc) ?rom s1 = Some s' \<and> pc s' = 44
         \<and> ram s' 1 = 300 \<and> ram s' 2 = 400 \<and> ram s' 3 = 3000 \<and> ram s' 4 = 4000
         \<and> ram s' 0 = 257"
    using r1 p1' r2 p2' v' by blast
  have p0: "pc caller_state = 0" by (simp add: caller_state_def)
  show ?thesis using n1 n2 lc lr p0 args e by blast
qed

section \<open>The bootstrap code\<close>

lemma py_str_0: "py_str 0 = ''0''"
  by (simp add: py_str_def str_nat.simps [of 0] digit_char_def)

lemma load_bootstrap:
  "load tab GenerateBootStrapCode
     = Some ([AInstr 256, CInstr False True False ValA JNone, AInstr 0,
              CInstr False False True ValD JNone]
             @ call_instrs (tab ''Dummy'') 0 (tab ''Sys.init'') @ [jmp])"
proof -
  have a: "parse_asm tab ''@Dummy'' = Some (Ins (AInstr (tab ''Dummy'')))"
    "parse_asm tab ''@Sys.init'' = Some (Ins (AInstr (tab ''Sys.init'')))"
    "parse_asm tab ''@0'' = Some (Ins (AInstr 0))"
    by (simp_all add: parse_simps)
  show ?thesis
    using a
    by (simp add: GenerateBootStrapCode_def GenerateFunctionCallCode_def PushAddress_def
        call_instrs_def jmp_def py_str_0 Let_def)
qed

lemma bootstrap_head_exec:
  "exec [AInstr 256, CInstr False True False ValA JNone, AInstr 0,
         CInstr False False True ValD JNone] s
     = \<lparr>regA = 0, regD = 256, ram = (ram s)(0 := 256), pc = pc s + 4\<rparr>"
  by (simp add: exec_Cons exec_Nil Let_def)

text \<open>
  C8. The output file starts with the bootstrap code: always when it is complete, and
  also when the write loop stopped early, as long as the encoding of the output could
  write the lines of the bootstrap code. Its first four lines set
  the stack pointer to 256, and the lines after them are the code of a call of
  \<open>Sys.init\<close> with 0 arguments without its last line, the return label. Loaded at
  address 0 and started there, the machine has the stack pointer at 256 after four
  instructions and reaches the address of \<open>Sys.init\<close> after the last instruction of the
  bootstrap code, with the frame of the call on the stack: until then no instruction
  behind the bootstrap code has run.
\<close>

theorem bootstrap_first:
  assumes w: "main enc files = Written out
              \<or> main enc files = Partial out
                \<and> list_all (\<lambda>l. list_all enc (l @ [CHR 0x0A])) GenerateBootStrapCode"
    and l: "load tab GenerateBootStrapCode = Some code"
    and p: "pc s = 0"
  shows "(\<exists>rest. out = GenerateBootStrapCode @ rest)
     \<and> take 4 GenerateBootStrapCode = [''@256'', ''D=A'', ''@SP'', ''M=D'']
     \<and> GenerateFunctionCallCode ''Sys.init'' 0 ''Dummy''
         = drop 4 GenerateBootStrapCode
           @ [''(Dummy)'' @ cmt ''Call function Sys.init with  0 arguments'']
     \<and> (\<exists>s4 s'. run 4 (code @ post) s = Some s4 \<and> pc s4 = 4 \<and> ram s4 0 = 256
           \<and> run (length code) (code @ post) s = Some s'
           \<and> pc s' = unat (tab ''Sys.init'')
           \<and> ram s' 0 = 261 \<and> ram s' 1 = 261 \<and> ram s' 2 = 256
           \<and> ram s' 256 = tab ''Dummy'' \<and> ram s' 257 = ram s 1 \<and> ram s' 258 = ram s 2
           \<and> ram s' 259 = ram s 3 \<and> ram s' 260 = ram s 4)"
proof -
  let ?b4 = "[AInstr 256, CInstr False True False ValA JNone, AInstr 0,
              CInstr False False True ValD JNone]"
  let ?call = "call_instrs (tab ''Dummy'') 0 (tab ''Sys.init'')"
  have out: "\<exists>rest. out = GenerateBootStrapCode @ rest"
  proof -
    let ?P = "\<lambda>l. list_all enc (l @ [CHR 0x0A])"
    from w obtain ts fin where
      wl: "write_lines enc (GenerateBootStrapCode @ concat ts) = (out, fin)" and
      enc: "fin \<or> list_all ?P GenerateBootStrapCode"
      by (auto simp add: main_def split: option.splits if_splits prod.splits bool.splits)
    from wl have o: "out = takeWhile ?P (GenerateBootStrapCode @ concat ts)"
      and f: "fin = list_all ?P (GenerateBootStrapCode @ concat ts)"
      by (simp_all add: write_lines_takeWhile)
    have "list_all ?P GenerateBootStrapCode" using enc f by auto
    then have "\<And>x. x \<in> set GenerateBootStrapCode \<Longrightarrow> ?P x"
      by (simp add: list_all_iff)
    then have "takeWhile ?P (GenerateBootStrapCode @ concat ts)
        = GenerateBootStrapCode @ takeWhile ?P (concat ts)"
      by (rule takeWhile_append2)
    then show ?thesis using o by blast
  qed
  have head: "take 4 GenerateBootStrapCode = [''@256'', ''D=A'', ''@SP'', ''M=D'']"
    by (simp add: GenerateBootStrapCode_def)
  have tail: "GenerateFunctionCallCode ''Sys.init'' 0 ''Dummy''
         = drop 4 GenerateBootStrapCode
           @ [''(Dummy)'' @ cmt ''Call function Sys.init with  0 arguments'']"
    by (simp add: GenerateBootStrapCode_def GenerateFunctionCallCode_def PushAddress_def
        py_str_0 Let_def)
  have code: "code = ?b4 @ ?call @ [jmp]" using l by (simp add: load_bootstrap)
  have len: "length code = 48" by (simp add: code call_instrs_def)
  define s4 where "s4 = exec ?b4 s"
  have s4: "s4 = \<lparr>regA = 0, regD = 256, ram = (ram s)(0 := 256), pc = pc s + 4\<rparr>"
    unfolding s4_def by (rule bootstrap_head_exec)
  have r4: "run 4 (code @ post) s = Some s4"
  proof -
    have "run 4 ([] @ ?b4 @ (?call @ [jmp] @ post)) s = Some (exec ?b4 s)"
      by (rule run_exec) (simp_all add: no_jump_def p)
    then show ?thesis by (simp add: code s4_def)
  qed
  have nj: "list_all no_jump (?b4 @ ?call)"
    by (simp add: call_instrs_def no_jump_def)
  define sc where "sc = exec ?call s4"
  have e: "exec (?b4 @ ?call) s = sc"
    unfolding sc_def s4_def by (rule exec_append)
  define s' where "s' = sc\<lparr>pc := unat (regA sc)\<rparr>"
  have r: "run (length code) (code @ post) s = Some s'"
  proof -
    have "run (length code) ([] @ ((?b4 @ ?call) @ [jmp]) @ post) s
        = Some ((exec (?b4 @ ?call) s)\<lparr>pc := unat (regA (exec (?b4 @ ?call) s))\<rparr>)"
      by (rule run_code_then_jmp [OF nj]) (simp_all add: p len call_instrs_def)
    then have "run (length code) ([] @ ((?b4 @ ?call) @ [jmp]) @ post) s = Some s'"
      by (simp only: e s'_def)
    then show ?thesis by (simp add: code)
  qed
  have sp: "15 < unat (ram s4 0)" and top: "unat (ram s4 0) + 5 < 65536"
    by (simp_all add: s4)
  note ce = call_exec [OF sp top, of "tab ''Dummy''" 0 "tab ''Sys.init''", folded sc_def]
  have v: "pc s' = unat (tab ''Sys.init'')" "ram s' 0 = 261" "ram s' 1 = 261" "ram s' 2 = 256"
    "ram s' 256 = tab ''Dummy''" "ram s' 257 = ram s 1" "ram s' 258 = ram s 2"
    "ram s' 259 = ram s 3" "ram s' 260 = ram s 4"
    using ce by (simp_all add: s'_def s4)
  have m: "\<exists>s4 s'. run 4 (code @ post) s = Some s4 \<and> pc s4 = 4 \<and> ram s4 0 = 256
           \<and> run (length code) (code @ post) s = Some s'
           \<and> pc s' = unat (tab ''Sys.init'')
           \<and> ram s' 0 = 261 \<and> ram s' 1 = 261 \<and> ram s' 2 = 256
           \<and> ram s' 256 = tab ''Dummy'' \<and> ram s' 257 = ram s 1 \<and> ram s' 258 = ram s 2
           \<and> ram s' 259 = ram s 3 \<and> ram s' 260 = ram s 4"
    using r4 r v p by (intro exI [of _ s4] exI [of _ s']) (simp add: s4)
  show ?thesis using out head tail m by blast
qed

lemma main_loop_program_written:
  "main all_encodable loop_program = Written (emitted (main all_encodable loop_program))"
  by code_simp

theorem bootstrap_first_witness:
  "main all_encodable loop_program = Written (emitted (main all_encodable loop_program))
   \<and> load callee_at_45 GenerateBootStrapCode
       = Some ([AInstr 256, CInstr False True False ValA JNone, AInstr 0,
                CInstr False False True ValD JNone] @ call_instrs 44 0 44 @ [jmp])
   \<and> pc caller_state = 0
   \<and> take 4 (emitted (main all_encodable loop_program)) = [''@256'', ''D=A'', ''@SP'', ''M=D'']
   \<and> (\<exists>s'. run (length ([AInstr 256, CInstr False True False ValA JNone, AInstr 0,
                CInstr False False True ValD JNone] @ call_instrs 44 0 44 @ [jmp]))
              ([AInstr 256, CInstr False True False ValA JNone, AInstr 0,
                CInstr False False True ValD JNone] @ call_instrs 44 0 44 @ [jmp])
              caller_state = Some s'
         \<and> pc s' = 44 \<and> ram s' 0 = 261 \<and> ram s' 2 = 256 \<and> ram s' 257 = 300)"
proof -
  let ?code = "[AInstr 256, CInstr False True False ValA JNone, AInstr 0,
                CInstr False False True ValD JNone] @ call_instrs 44 0 44 @ [jmp]"
  define E where "E = emitted (main all_encodable loop_program)"
  have w: "main all_encodable loop_program = Written E"
    unfolding E_def by (rule main_loop_program_written)
  have l: "load callee_at_45 GenerateBootStrapCode = Some ?code"
    using load_bootstrap [of callee_at_45] by (simp add: callee_at_45_def)
  have p: "pc caller_state = 0" by (simp add: caller_state_def)
  from bootstrap_first [OF disjI1 [OF w] l p, of "[]"]
  obtain rest s4 s' where
    o: "E = GenerateBootStrapCode @ rest" and
    h: "take 4 GenerateBootStrapCode = [''@256'', ''D=A'', ''@SP'', ''M=D'']" and
    r: "run (length ?code) (?code @ []) caller_state = Some s'" and
    v: "pc s' = unat (callee_at_45 ''Sys.init'')" "ram s' 0 = 261" "ram s' 2 = 256"
       "ram s' 257 = ram caller_state 1"
    by blast
  have t: "take 4 E = [''@256'', ''D=A'', ''@SP'', ''M=D'']"
  proof -
    have "length GenerateBootStrapCode \<ge> 4" by (simp add: GenerateBootStrapCode_def)
    then have "take 4 (GenerateBootStrapCode @ rest) = take 4 GenerateBootStrapCode" by simp
    then show ?thesis using o h by simp
  qed
  have v': "pc s' = 44" "ram s' 257 = 300"
    using v by (simp_all add: callee_at_45_def caller_state_def)
  have r': "run (length ?code) ?code caller_state = Some s'" using r by simp
  have e: "\<exists>s'. run (length ?code) ?code caller_state = Some s'
         \<and> pc s' = 44 \<and> ram s' 0 = 261 \<and> ram s' 2 = 256 \<and> ram s' 257 = 300"
    using r' v' v(2) v(3) by blast
  show ?thesis using w l p t e unfolding E_def by blast
qed

section \<open>Push and pop\<close>

lemma push_tail_exec:
  "exec [AInstr 0, CInstr False False True IncM JNone, CInstr True False False DecM JNone,
         CInstr False False True ValD JNone] s
     = \<lparr>regA = ram s 0, regD = regD s,
        ram = (ram s)(0 := ram s 0 + 1, ram s 0 := regD s), pc = pc s + 4\<rparr>"
  by (simp add: exec_Cons exec_Nil Let_def)

lemma pop_tail_exec_above:
  assumes "ram s 0 \<noteq> 1" and "ram s 0 \<noteq> 14"
  shows "exec [CInstr False True False ValA JNone, AInstr 13, CInstr False False True ValD JNone,
            AInstr 0, CInstr False False True DecM JNone, CInstr True False False ValM JNone,
            CInstr False True False ValM JNone, AInstr 13, CInstr True False False ValM JNone,
            CInstr False False True ValD JNone] s
     = \<lparr>regA = regA s, regD = ram s (ram s 0 - 1),
        ram = (ram s)(13 := regA s, 0 := ram s 0 - 1, regA s := ram s (ram s 0 - 1)),
        pc = pc s + 10\<rparr>"
  using assms by (simp add: exec_Cons exec_Nil Let_def)

lemma push_indirect_exec:
  "exec [AInstr iv, CInstr False True False ValA JNone, AInstr k,
         CInstr True False False DplusM JNone, CInstr False True False ValM JNone] s
     = \<lparr>regA = iv + ram s k, regD = ram s (iv + ram s k), ram = ram s, pc = pc s + 5\<rparr>"
  by (simp add: exec_Cons exec_Nil Let_def)

lemma pop_indirect_exec:
  "exec [AInstr iv, CInstr False True False ValA JNone, AInstr k,
         CInstr True False False DplusM JNone] s
     = \<lparr>regA = iv + ram s k, regD = iv, ram = ram s, pc = pc s + 4\<rparr>"
  by (simp add: exec_Cons exec_Nil Let_def)

lemma a_value_digits:
  assumes "i \<noteq> []" and "list_all is_ascii_digit i" and "nat_of_digits i < 32768"
  shows "a_value tab i = Some (word_of_nat (nat_of_digits i))"
proof -
  have "is_ascii_digit (hd i)" using assms(1,2) by (cases i) simp_all
  then show ?thesis using assms by (simp add: a_value_def)
qed

lemma parse_segment_pointer:
  assumes "S = LCL \<or> S = ARG \<or> S = THIS \<or> S = THAT"
  shows "parse_asm tab (CHR ''@'' # sname S) = Some (Ins (AInstr (segment_pointer S)))"
    and "segment_pointer S = 1 \<or> segment_pointer S = 2 \<or> segment_pointer S = 3
         \<or> segment_pointer S = 4"
    and "svalue S < 5"
  using assms by (auto simp add: segment_pointer_def predefined_def)

text \<open>
  C6. For each of the segments \<open>LCL\<close>, \<open>ARG\<close>, \<open>THIS\<close> and \<open>THAT\<close> and every index written
  in decimal digits that an A-instruction can hold, the code of a push of the segment and
  the index followed by the code of a pop of the same segment and index runs to its end,
  and then the cell at the resolved address (the base of the segment plus the index) and
  the stack pointer hold what they held before. The stack pointer points above the
  registers \<open>R0\<close> to \<open>R15\<close> at the start.
\<close>

theorem push_pop_round_trip:
  assumes seg: "S = LCL \<or> S = ARG \<or> S = THIS \<or> S = THAT"
    and ne: "i \<noteq> []" and dig: "list_all is_ascii_digit i" and small: "nat_of_digits i < 32768"
    and p: "pc s = length pre"
    and sp: "15 < unat (ram s 0)"
  shows "\<exists>pushc popc code s'.
       GeneratePushCode S i fileName = Some pushc \<and> GeneratePopCode S i fileName = Some popc
     \<and> load tab (pushc @ popc) = Some code
     \<and> run (length code) (pre @ code @ post) s = Some s'
     \<and> pc s' = length pre + length code
     \<and> ram s' (resolved_address S i s) = ram s (resolved_address S i s)
     \<and> ram s' 0 = ram s 0"
proof -
  define iv :: "16 word" where "iv = word_of_nat (nat_of_digits i)"
  define k where "k = segment_pointer S"
  define addr where "addr = iv + ram s k"
  let ?pushp = "[AInstr iv, CInstr False True False ValA JNone, AInstr k,
         CInstr True False False DplusM JNone, CInstr False True False ValM JNone]"
  let ?pusht = "[AInstr 0, CInstr False False True IncM JNone, CInstr True False False DecM JNone,
         CInstr False False True ValD JNone]"
  let ?popp = "[AInstr iv, CInstr False True False ValA JNone, AInstr k,
         CInstr True False False DplusM JNone]"
  let ?popt = "[CInstr False True False ValA JNone, AInstr 13, CInstr False False True ValD JNone,
            AInstr 0, CInstr False False True DecM JNone, CInstr True False False ValM JNone,
            CInstr False True False ValM JNone, AInstr 13, CInstr True False False ValM JNone,
            CInstr False False True ValD JNone]"
  let ?pushc = "[cmt (''Push '' @ sname S @ '' '' @ i), ''@'' @ i, ''D=A'', ''@'' @ sname S,
                 ''A=D+M'', ''D=M'', ''@SP'', ''M=M+1'', ''A=M-1'', ''M=D'']"
  let ?popc = "[cmt (''Pop '' @ sname S @ '' '' @ i), ''@'' @ i, ''D=A'', ''@'' @ sname S,
                ''A=D+M'', ''D=A'', ''@R13'', ''M=D'', ''@SP'', ''M=M-1'', ''A=M'', ''D=M'',
                ''@R13'', ''A=M'', ''M=D'']"
  let ?code = "(?pushp @ ?pusht) @ (?popp @ ?popt)"
  note sg = parse_segment_pointer [OF seg]
  have g1: "GeneratePushCode S i fileName = Some ?pushc"
    using sg(3) seg by (auto simp add: GeneratePushCode_def)
  have g2: "GeneratePopCode S i fileName = Some ?popc"
    using sg(3) by (simp add: GeneratePopCode_def)
  have pi: "parse_asm tab (CHR ''@'' # i) = Some (Ins (AInstr iv))"
    unfolding iv_def
    by (rule parse_at_name(1) [OF digits_plain [OF dig ne] a_value_digits [OF ne dig small]])
  have ps: "parse_asm tab (CHR ''@'' # sname S) = Some (Ins (AInstr k))"
    unfolding k_def by (rule sg(1))
  have l: "load tab (?pushc @ ?popc) = Some ?code"
    using pi ps by simp
  have nj: "list_all no_jump ?code" by (simp add: no_jump_def)
  have r: "run (length ?code) (pre @ ?code @ post) s = Some (exec ?code s)"
    using nj p by (rule run_exec) simp
  have q: "pc (exec ?code s) = length pre + length ?code"
    using pc_exec [OF nj, of s] p by simp
  have kk: "k = 1 \<or> k = 2 \<or> k = 3 \<or> k = 4" unfolding k_def by (rule sg(2))
  have n: "ram s 0 \<noteq> 0" "ram s 0 \<noteq> 13" "ram s 0 \<noteq> 1" "ram s 0 \<noteq> 2" "ram s 0 \<noteq> 3"
    "ram s 0 \<noteq> 4"
    using sp by auto
  define s1 where "s1 = exec (?pushp @ ?pusht) s"
  have s1: "s1 = \<lparr>regA = ram s 0, regD = ram s addr,
        ram = (ram s)(0 := ram s 0 + 1, ram s 0 := ram s addr), pc = pc s + 9\<rparr>"
    unfolding s1_def exec_append push_indirect_exec push_tail_exec addr_def by simp
  have b: "ram s1 k = ram s k" using kk n by (auto simp add: s1)
  define s2 where "s2 = exec ?popp s1"
  have s2: "s2 = \<lparr>regA = addr, regD = iv, ram = ram s1, pc = pc s1 + 4\<rparr>"
    unfolding s2_def pop_indirect_exec b addr_def by simp
  have t: "ram s2 0 = ram s 0 + 1" using n by (simp add: s2 s1)
  have t1: "ram s2 0 \<noteq> 1" "ram s2 0 \<noteq> 14"
    unfolding t using n(1,2) by (simp_all add: add_eq_0_iff2 eq_diff_eq [symmetric])
  have e: "exec ?code s = exec ?popt s2"
    unfolding s2_def s1_def by (simp only: exec_append)
  have f: "ram (exec ?popt s2)
           = (ram s2)(13 := addr, 0 := ram s 0, addr := ram s2 (ram s 0))"
    unfolding pop_tail_exec_above [OF t1] by (simp add: t) (simp add: s2)
  have top: "ram s2 (ram s 0) = ram s addr" by (simp add: s2 s1)
  have v: "ram (exec ?code s) addr = ram s addr" unfolding e f top by simp
  have w: "ram (exec ?code s) 0 = ram s 0" unfolding e f top by (simp add: fun_upd_def)
  have ra: "resolved_address S i s = addr"
    by (simp add: resolved_address_def addr_def iv_def k_def)
  show ?thesis
    using g1 g2 l r q v w unfolding ra
    by (intro exI [of _ ?pushc] exI [of _ ?popc] exI [of _ ?code] exI [of _ "exec ?code s"])
      simp
qed

theorem push_pop_round_trip_witness:
  "(\<exists>pushc popc code s'.
       GeneratePushCode LCL ''2'' ''Main'' = Some pushc
     \<and> GeneratePopCode LCL ''2'' ''Main'' = Some popc
     \<and> load label_at_12 (pushc @ popc) = Some code
     \<and> run (length code) code segment_state = Some s'
     \<and> ram s' 302 = 55 \<and> ram s' 0 = 258)
   \<and> resolved_address LCL ''2'' segment_state = 302
   \<and> 15 < unat (ram segment_state 0)"
proof -
  have ne: "''2'' \<noteq> []" by simp
  have dig: "list_all is_ascii_digit ''2''" by (simp add: is_ascii_digit_def)
  have small: "nat_of_digits ''2'' < 32768" by (simp add: nat_of_digits_def digit_val_def)
  have p: "pc segment_state = length ([] :: instr list)" by (simp add: segment_state_def)
  have sp: "15 < unat (ram segment_state 0)" by (simp add: segment_state_def)
  have ra: "resolved_address LCL ''2'' segment_state = 302"
    by (simp add: resolved_address_def segment_pointer_def predefined_def nat_of_digits_def
        digit_val_def segment_state_def)
  from push_pop_round_trip [OF disjI1 [OF refl] ne dig small p sp, of "''Main''" label_at_12 "[]"]
  obtain pushc popc code s' where
    g: "GeneratePushCode LCL ''2'' ''Main'' = Some pushc"
       "GeneratePopCode LCL ''2'' ''Main'' = Some popc"
       "load label_at_12 (pushc @ popc) = Some code" and
    r: "run (length code) ([] @ code @ []) segment_state = Some s'" and
    v: "ram s' (resolved_address LCL ''2'' segment_state)
          = ram segment_state (resolved_address LCL ''2'' segment_state)"
       "ram s' 0 = ram segment_state 0"
    by blast
  have r': "run (length code) code segment_state = Some s'" using r by simp
  have v': "ram s' 302 = 55" "ram s' 0 = 258"
    using v unfolding ra by (simp_all add: segment_state_def)
  show ?thesis using g r' v' ra sp by blast
qed

section \<open>The memory cells that push and pop alter\<close>



lemma load_push_tail:
  "load tab [''@SP'', ''M=M+1'', ''A=M-1'', ''M=D'']
     = Some [AInstr 0, CInstr False False True IncM JNone, CInstr True False False DecM JNone,
         CInstr False False True ValD JNone]"
  by simp








end
